theory Spec2Isabelle
  imports Complex_Main "HOL-Library.Sublist" "HOL-Library.Multiset"
begin

section \<open>JavaScript string primitives used by the chunker\<close>

text \<open>
  A JavaScript string is a sequence of code units; it is modelled as a \<^typ>\<open>string\<close>
  (a list of characters). Cursor positions and the numeric parameters are JavaScript
  numbers that only ever hold integers here, so they are modelled as \<^typ>\<open>int\<close>.
\<close>

text \<open>
  \<open>first_match pat s\<close> is the offset of the first occurrence of \<open>pat\<close> in \<open>s\<close>,
  the scan behind \<^verbatim>\<open>String.prototype.indexOf\<close>.
\<close>

fun first_match :: "string \<Rightarrow> string \<Rightarrow> nat option" where
  "first_match pat [] = (if pat = [] then Some 0 else None)"
| "first_match pat (c # cs) =
     (if take (length pat) (c # cs) = pat then Some 0
      else map_option Suc (first_match pat cs))"

text \<open>
  \<^verbatim>\<open>text.indexOf(pat, position)\<close>: the start position is clamped into \<open>[0, length]\<close>,
  the result is the index of the first occurrence at or after it, or \<open>-1\<close>.
\<close>

definition indexOf :: "string \<Rightarrow> string \<Rightarrow> int \<Rightarrow> int" where
  "indexOf text pat position =
     (let k = nat (min (max position 0) (int (length text)))
      in case first_match pat (drop k text) of
           None \<Rightarrow> - 1
         | Some j \<Rightarrow> int (k + j))"

text \<open>
  \<^verbatim>\<open>text.substring(start, end)\<close>: both arguments are clamped into \<open>[0, length]\<close> and
  swapped when the first exceeds the second.
\<close>

definition substring :: "string \<Rightarrow> int \<Rightarrow> int \<Rightarrow> string" where
  "substring text start end =
     (let len = int (length text);
          s = min (max start 0) len;
          e = min (max end 0) len;
          from = min s e;
          to = max s e
      in take (nat (to - from)) (drop (nat from) text))"

section \<open>The chunker: \<^verbatim>\<open>splitTextIntoChunks\<close> of \<^verbatim>\<open>lib/document-processor.js\<close>\<close>

text \<open>
  The two soft boundaries the loop looks for: a blank line and the end of a sentence.
\<close>

definition paragraph_break :: string where
  "paragraph_break = [CHR 0x0A, CHR 0x0A]"

definition sentence_break :: string where
  "sentence_break = ''. ''"

text \<open>
  The adjustment of the proposed end position \<open>endPos = startPos + chunkSize\<close>
  (the \<^verbatim>\<open>if (endPos < text.length)\<close> block of the loop body).
\<close>

definition snapEnd :: "string \<Rightarrow> int \<Rightarrow> int" where
  "snapEnd text endPos =
     (if endPos < int (length text) then
        (let paragraphEnd = indexOf text paragraph_break (endPos - 100)
         in if paragraphEnd \<noteq> - 1 \<and> paragraphEnd < endPos + 100 then paragraphEnd
            else
              (let sentenceEnd = indexOf text sentence_break (endPos - 100)
               in if sentenceEnd \<noteq> - 1 \<and> sentenceEnd < endPos + 50 then sentenceEnd + 1
                  else endPos))
      else endPos)"

text \<open>The end position of the chunk that starts at \<open>startPos\<close>, after \<^verbatim>\<open>Math.min\<close>.\<close>

definition chunkEnd :: "string \<Rightarrow> int \<Rightarrow> int \<Rightarrow> int" where
  "chunkEnd text startPos chunkSize =
     min (snapEnd text (startPos + chunkSize)) (int (length text))"

text \<open>
  The \<^verbatim>\<open>while\<close> loop. Nothing in the loop bounds the number of iterations, so the
  loop is a partial function: \<open>None\<close> is a run that never returns.
\<close>

partial_function (option) chunk_loop ::
  "string \<Rightarrow> int \<Rightarrow> int \<Rightarrow> int \<Rightarrow> string list \<Rightarrow> string list option" where
  "chunk_loop text chunkSize overlap startPos chunks =
     (if startPos < int (length text) then
        (let endPos = chunkEnd text startPos chunkSize;
             chunks' = chunks @ [substring text startPos endPos];
             startPos' = endPos - overlap
         in if startPos' \<ge> int (length text) \<or> endPos = int (length text)
            then Some chunks'
            else chunk_loop text chunkSize overlap startPos' chunks')
      else Some chunks)"

declare chunk_loop.simps [code]

definition splitTextIntoChunks :: "string \<Rightarrow> int \<Rightarrow> int \<Rightarrow> string list option" where
  "splitTextIntoChunks text chunkSize overlap = chunk_loop text chunkSize overlap 0 []"

section \<open>Data model\<close>

text \<open>
  The Mongoose models \<^verbatim>\<open>Document\<close> and \<^verbatim>\<open>DocumentChunk\<close>, reduced to the fields the
  operations below read or write. Object identifiers are natural numbers. An embedding
  is a list of numbers; its entries are modelled as reals.
\<close>

record document =
  doc_id :: nat
  doc_name :: string
  doc_type :: string
  doc_size :: nat

record chunk =
  documentId :: nat
  content :: string
  embedding :: "real list option"

text \<open>
  Modelled from the spec: the \<^verbatim>\<open>Message\<close> entity, whose model file
  \<^verbatim>\<open>models/Message.js\<close> is not among the sources. A message has a role, a text content and
  a creation timestamp; the plain \<^verbatim>\<open>{role, content}\<close> objects exchanged with the hosted
  model are the part without the timestamp.
\<close>

datatype role = User | Assistant | System

record chat_message =
  msg_role :: role
  msg_content :: string

record message = chat_message +
  createdAt :: nat

text \<open>
  The file object that the upload middleware hands to the route.
\<close>

record upload =
  path :: string
  originalname :: string
  file_size :: nat

text \<open>
  The three collections, the counter that supplies fresh identifiers, and the part of
  the file system that holds temporary uploads.
\<close>

record state =
  documents :: "document list"
  documentChunks :: "chunk list"
  messages :: "message list"
  next_id :: nat
  files :: "string \<Rightarrow> string option"

text \<open>
  A thrown \<^verbatim>\<open>Error\<close> with its message.
\<close>

datatype error = Error string

section \<open>The storage adapter \<^verbatim>\<open>MongoStorage\<close>\<close>

text \<open>
  \<^verbatim>\<open>deleteDocument\<close>: \<^verbatim>\<open>findByIdAndDelete\<close> yields the removed document or nothing; only in
  the first case are the chunks of the document deleted.
\<close>

definition deleteDocument :: "nat \<Rightarrow> state \<Rightarrow> bool \<times> state" where
  "deleteDocument ident st =
     (case find (\<lambda>d. doc_id d = ident) (documents st) of
        None \<Rightarrow> (False, st)
      | Some result \<Rightarrow>
          (True, st\<lparr>documents := remove1 result (documents st),
                    documentChunks := filter (\<lambda>c. documentId c \<noteq> ident) (documentChunks st)\<rparr>))"

text \<open>
  \<^verbatim>\<open>Array.prototype.sort\<close> with a comparison function: a stable sort that places \<open>a\<close>
  before \<open>b\<close> when the comparison of \<open>a\<close> with \<open>b\<close> is not positive.
\<close>

fun insert_by :: "('a \<Rightarrow> 'a \<Rightarrow> real) \<Rightarrow> 'a \<Rightarrow> 'a list \<Rightarrow> 'a list" where
  "insert_by cmp x [] = [x]"
| "insert_by cmp x (y # ys) = (if cmp x y \<le> 0 then x # y # ys else y # insert_by cmp x ys)"

definition js_sort :: "('a \<Rightarrow> 'a \<Rightarrow> real) \<Rightarrow> 'a list \<Rightarrow> 'a list" where
  "js_sort cmp xs = foldr (insert_by cmp) xs []"

text \<open>
  Modelled from the spec: \<^verbatim>\<open>calculateCosineSimilarity\<close> of \<^verbatim>\<open>lib/utils.js\<close>, which is not
  among the sources: the dot product divided by the product of the magnitudes, and \<open>0\<close>
  when either vector has zero magnitude. The ranker below takes the similarity function
  as a parameter; this definition is one instance of it.
\<close>

definition dot :: "real list \<Rightarrow> real list \<Rightarrow> real" where
  "dot a b = sum_list (map2 (*) a b)"

definition magnitude :: "real list \<Rightarrow> real" where
  "magnitude a = sqrt (dot a a)"

definition calculateCosineSimilarity :: "real list \<Rightarrow> real list \<Rightarrow> real" where
  "calculateCosineSimilarity a b =
     (if magnitude a = 0 \<or> magnitude b = 0 then 0
      else dot a b / (magnitude a * magnitude b))"

text \<open>
  \<^verbatim>\<open>searchSimilarChunks\<close>: the query \<^verbatim>\<open>{embedding: {$ne: null}}\<close>, the scoring, the sort with
  the comparison \<^verbatim>\<open>b.similarity - a.similarity\<close>, and \<^verbatim>\<open>slice(0, limit)\<close>. The limit is a
  count, a natural number.
\<close>

definition searchSimilarChunks ::
  "(real list \<Rightarrow> real list \<Rightarrow> real) \<Rightarrow> state \<Rightarrow> real list \<Rightarrow> nat \<Rightarrow> chunk list" where
  "searchSimilarChunks similarity st queryEmbedding limit =
     (let found = filter (\<lambda>c. embedding c \<noteq> None) (documentChunks st);
          chunksWithScores = map (\<lambda>c. (c, similarity queryEmbedding (the (embedding c)))) found;
          sorted = js_sort (\<lambda>a b. snd b - snd a) chunksWithScores
      in map fst (take limit sorted))"

text \<open>
  \<^verbatim>\<open>createMessage\<close>; the timestamp is the value of \<^verbatim>\<open>Date.now\<close> at the time of the call.
\<close>

definition createMessage :: "nat \<Rightarrow> chat_message \<Rightarrow> state \<Rightarrow> message \<times> state" where
  "createMessage now m st =
     (let newMessage = \<lparr>msg_role = msg_role m, msg_content = msg_content m, createdAt = now\<rparr>
      in (newMessage, st\<lparr>messages := messages st @ [newMessage]\<rparr>))"

text \<open>
  \<^verbatim>\<open>getMessages\<close>: all messages in ascending order of \<^verbatim>\<open>createdAt\<close>.
\<close>

definition getMessages :: "state \<Rightarrow> message list" where
  "getMessages st = sort_key createdAt (messages st)"

definition clearMessages :: "state \<Rightarrow> state" where
  "clearMessages st = st\<lparr>messages := []\<rparr>"

section \<open>Calls to the hosted model: \<^verbatim>\<open>lib/openai.js\<close>\<close>

text \<open>
  The remote calls are parameters: a function that returns the provider's answer or its
  failure. \<^verbatim>\<open>generateEmbedding\<close> replaces any failure by its own error.
\<close>

definition generateEmbedding :: "(string \<Rightarrow> 'e + real list) \<Rightarrow> string \<Rightarrow> error + real list" where
  "generateEmbedding embeddingsApi input =
     (case embeddingsApi input of
        Inl _ \<Rightarrow> Inl (Error ''Failed to generate embedding'')
      | Inr v \<Rightarrow> Inr v)"

text \<open>
  The decimal digits of a number, for the template literal that numbers the excerpts.
\<close>

fun show_nat :: "nat \<Rightarrow> string" where
  "show_nat n =
     (if n < 10 then [char_of (48 + n)]
      else show_nat (n div 10) @ [char_of (48 + n mod 10)])"

declare show_nat.simps [simp del]

text \<open>
  The two system instructions, as the string literals of the source.
\<close>

definition strict_instruction :: string where
  "strict_instruction =
     ''IMPORTANT: You are Stephen, a document-based support assistant. You must ONLY answer based on the document excerpts provided below. If the answer cannot be found in these excerpts, explicitly state that you cannot answer based on the available documents. Do NOT use any external knowledge.\<newline>\<newline>''"

definition no_documents_instruction :: string where
  "no_documents_instruction =
     ''You are Stephen, a document-based support assistant. You can ONLY answer questions based on uploaded document content. If no relevant documents have been uploaded or if the documents don't contain the necessary information, politely explain that you can only provide answers based on uploaded documents and cannot use external knowledge.''"

text \<open>
  The text appended for the chunk at index \<open>i\<close> by the \<^verbatim>\<open>forEach\<close> callback.
\<close>

definition excerpt :: "nat \<Rightarrow> chunk \<Rightarrow> string" where
  "excerpt i c = ''Document excerpt '' @ show_nat (i + 1) @ '':\<newline>'' @ content c @ ''\<newline>\<newline>''"

text \<open>
  Lines 37 to 47 of \<^verbatim>\<open>generateChatResponse\<close>: the content of the system message.
\<close>

definition contextTextOf :: "chunk list \<Rightarrow> string" where
  "contextTextOf contextChunks =
     (if length contextChunks > 0
      then foldl (\<lambda>contextText (i, c). contextText @ excerpt i c) strict_instruction
             (enumerate 0 contextChunks)
      else no_documents_instruction)"

text \<open>
  The array sent to the chat completion endpoint.
\<close>

definition formattedMessages :: "chat_message list \<Rightarrow> chunk list \<Rightarrow> chat_message list" where
  "formattedMessages msgs contextChunks =
     (let systemMessage = \<lparr>msg_role = System, msg_content = contextTextOf contextChunks\<rparr>
      in systemMessage # msgs)"

text \<open>
  \<^verbatim>\<open>generateChatResponse\<close>; the model name, the temperature and the token limit are
  constants of the request and have no part in what follows.
\<close>

definition generateChatResponse ::
  "(chat_message list \<Rightarrow> 'e + chat_message) \<Rightarrow> chat_message list \<Rightarrow> chunk list \<Rightarrow>
   error + chat_message" where
  "generateChatResponse completionsApi msgs contextChunks =
     (case completionsApi (formattedMessages msgs contextChunks) of
        Inl _ \<Rightarrow> Inl (Error ''Failed to generate response'')
      | Inr m \<Rightarrow> Inr m)"

section \<open>The chat route \<^verbatim>\<open>POST /api/chat\<close>\<close>

datatype chat_reply =
  Reply400 string
| Reply500 string
| Reply200 message nat

text \<open>
  The handler with its \<^verbatim>\<open>try\<close>/\<^verbatim>\<open>catch\<close>: \<open>now1\<close> and \<open>now2\<close> are the times at which the
  user message and the assistant message are saved.
\<close>

definition chat_route ::
  "(string \<Rightarrow> 'e + real list) \<Rightarrow> (chat_message list \<Rightarrow> 'f + chat_message) \<Rightarrow>
   (real list \<Rightarrow> real list \<Rightarrow> real) \<Rightarrow> nat \<Rightarrow> nat \<Rightarrow> string \<Rightarrow> state \<Rightarrow> chat_reply \<times> state" where
  "chat_route embeddingsApi completionsApi similarity now1 now2 body st =
     (if body = [] then (Reply400 ''Message content is required'', st)
      else
        (let userMessage = \<lparr>msg_role = User, msg_content = body\<rparr>;
             st1 = snd (createMessage now1 userMessage st)
         in case generateEmbedding embeddingsApi body of
              Inl _ \<Rightarrow> (Reply500 ''Failed to process chat message'', st1)
            | Inr queryEmbedding \<Rightarrow>
                (let similarChunks = searchSimilarChunks similarity st1 queryEmbedding 5;
                     msgs = getMessages st1;
                     formatted = map (\<lambda>msg. \<lparr>msg_role = msg_role msg, msg_content = msg_content msg\<rparr>) msgs
                 in case generateChatResponse completionsApi formatted similarChunks of
                      Inl _ \<Rightarrow> (Reply500 ''Failed to process chat message'', st1)
                    | Inr assistantResponse \<Rightarrow>
                        (let (savedMessage, st2) =
                               createMessage now2
                                 \<lparr>msg_role = Assistant, msg_content = msg_content assistantResponse\<rparr> st1
                         in (Reply200 savedMessage (length similarChunks), st2)))))"

section \<open>Upload processing: \<^verbatim>\<open>processFile\<close>\<close>

text \<open>
  \<^verbatim>\<open>path.extname\<close> (POSIX): the extension of the last path segment, from its last dot;
  empty when there is no dot, when the dot starts the segment, or for \<^verbatim>\<open>..\<close>.
\<close>

definition basename :: "string \<Rightarrow> string" where
  "basename p =
     (let stripped = rev (dropWhile (\<lambda>c. c = CHR ''/'') (rev p))
      in rev (takeWhile (\<lambda>c. c \<noteq> CHR ''/'') (rev stripped)))"

definition extname :: "string \<Rightarrow> string" where
  "extname p =
     (let base = basename p;
          ext = rev (takeWhile (\<lambda>c. c \<noteq> CHR ''.'') (rev base));
          stem = take (length base - length ext - 1) base
      in if CHR ''.'' \<notin> set base \<or> stem = [] \<or> base = ''..'' then [] else CHR ''.'' # ext)"

text \<open>
  Case conversion on the letters A to Z; every other code unit is left as it is, so the
  result is one of the four accepted extensions only when the JavaScript result is.
\<close>

definition toLowerCase :: "string \<Rightarrow> string" where
  "toLowerCase s =
     map (\<lambda>c. let n = of_char c :: nat in if 65 \<le> n \<and> n \<le> 90 then char_of (n + 32) else c) s"

definition toUpperCase :: "string \<Rightarrow> string" where
  "toUpperCase s =
     map (\<lambda>c. let n = of_char c :: nat in if 97 \<le> n \<and> n \<le> 122 then char_of (n - 32) else c) s"

text \<open>
  \<^verbatim>\<open>String.prototype.trim\<close>.
\<close>

definition is_whitespace :: "char \<Rightarrow> bool" where
  "is_whitespace c = (of_char c \<in> {9, 10, 11, 12, 13, 32, 160 :: nat})"

definition trim :: "string \<Rightarrow> string" where
  "trim s = rev (dropWhile is_whitespace (rev (dropWhile is_whitespace s)))"

definition readFileSync :: "string \<Rightarrow> state \<Rightarrow> error + string" where
  "readFileSync p st = (case files st p of None \<Rightarrow> Inl (Error ''ENOENT'') | Some buf \<Rightarrow> Inr buf)"

text \<open>
  The text extraction at the head of \<^verbatim>\<open>processFile\<close>. The PDF and DOCX parsers are
  parameters that return the text or fail.
\<close>

definition extractText ::
  "(string \<Rightarrow> error + string) \<Rightarrow> (string \<Rightarrow> error + string) \<Rightarrow> string \<Rightarrow> upload \<Rightarrow> state \<Rightarrow>
   error + string" where
  "extractText pdfParse extractRawText fileExtension file st =
     (if fileExtension = ''.pdf'' then
        (case readFileSync (path file) st of Inl e \<Rightarrow> Inl e | Inr dataBuffer \<Rightarrow> pdfParse dataBuffer)
      else if fileExtension = ''.docx'' then
        (case readFileSync (path file) st of Inl e \<Rightarrow> Inl e | Inr dataBuffer \<Rightarrow> extractRawText dataBuffer)
      else if fileExtension = ''.txt'' \<or> fileExtension = ''.md'' then
        readFileSync (path file) st
      else Inl (Error ''Unsupported file type''))"

definition saveDocument :: "string \<Rightarrow> string \<Rightarrow> nat \<Rightarrow> state \<Rightarrow> document \<times> state" where
  "saveDocument nm ty sz st =
     (let savedDocument = \<lparr>doc_id = next_id st, doc_name = nm, doc_type = ty, doc_size = sz\<rparr>
      in (savedDocument,
          st\<lparr>documents := documents st @ [savedDocument], next_id := Suc (next_id st)\<rparr>))"

text \<open>
  \<^verbatim>\<open>processDocumentChunks\<close>: every chunk that is not blank is saved without an embedding.
  The embedding request that follows each save runs detached from this call and is not
  part of its result.
\<close>

definition processDocumentChunks :: "nat \<Rightarrow> string \<Rightarrow> state \<Rightarrow> state option" where
  "processDocumentChunks docId text st =
     (case splitTextIntoChunks text 1000 200 of
        None \<Rightarrow> None
      | Some chunks \<Rightarrow>
          Some (foldl
            (\<lambda>s chunkText.
               if trim chunkText = [] then s
               else s\<lparr>documentChunks := documentChunks s @
                       [\<lparr>documentId = docId, content = chunkText, embedding = None\<rparr>]\<rparr>)
            st chunks))"

definition unlinkSync :: "string \<Rightarrow> state \<Rightarrow> state" where
  "unlinkSync p st = st\<lparr>files := (files st)(p := None)\<rparr>"

definition cleanup :: "upload \<Rightarrow> state \<Rightarrow> state" where
  "cleanup file st =
     (if path file \<noteq> [] \<and> files st (path file) \<noteq> None then unlinkSync (path file) st else st)"

text \<open>
  \<^verbatim>\<open>processFile\<close>: \<open>None\<close> is a call that never returns.
\<close>

definition processFile ::
  "(string \<Rightarrow> error + string) \<Rightarrow> (string \<Rightarrow> error + string) \<Rightarrow> upload \<Rightarrow> string \<Rightarrow> state \<Rightarrow>
   ((error + document) \<times> state) option" where
  "processFile pdfParse extractRawText file originalName st =
     (let fileExtension = toLowerCase (extname originalName)
      in case extractText pdfParse extractRawText fileExtension file st of
           Inl err \<Rightarrow> Some (Inl err, cleanup file st)
         | Inr text \<Rightarrow>
             (let (savedDocument, st1) =
                    saveDocument originalName (toUpperCase (drop 1 fileExtension)) (file_size file) st
              in case processDocumentChunks (doc_id savedDocument) text st1 of
                   None \<Rightarrow> None
                 | Some st2 \<Rightarrow> Some (Inr savedDocument, unlinkSync (path file) st2)))"

datatype upload_reply =
  Upload400 string
| Upload500 string
| Upload201 document

text \<open>
  The handler of \<^verbatim>\<open>POST /api/documents\<close>.
\<close>

definition upload_route ::
  "(string \<Rightarrow> error + string) \<Rightarrow> (string \<Rightarrow> error + string) \<Rightarrow> upload option \<Rightarrow> state \<Rightarrow>
   (upload_reply \<times> state) option" where
  "upload_route pdfParse extractRawText req_file st =
     (case req_file of
        None \<Rightarrow> Some (Upload400 ''No file uploaded'', st)
      | Some file \<Rightarrow>
          (case processFile pdfParse extractRawText file (originalname file) st of
             None \<Rightarrow> None
           | Some (Inl _, st') \<Rightarrow> Some (Upload500 ''Failed to upload document'', st')
           | Some (Inr d, st') \<Rightarrow> Some (Upload201 d, st')))"

section \<open>Notions used to state the properties\<close>

text \<open>
  \<open>pat\<close> occurs in \<open>text\<close> at index \<open>p\<close>.
\<close>

definition occurs :: "string \<Rightarrow> string \<Rightarrow> nat \<Rightarrow> bool" where
  "occurs text pat p = (take (length pat) (drop p text) = pat)"

text \<open>
  The lowest index in \<open>[lo, hi)\<close>, not below \<open>0\<close>, at which \<open>pat\<close> occurs.
\<close>

definition first_in_window :: "string \<Rightarrow> string \<Rightarrow> int \<Rightarrow> int \<Rightarrow> nat option" where
  "first_in_window text pat lo hi = find (occurs text pat) [nat lo ..< nat hi]"

text \<open>
  The end position described by windows: the first paragraph break at an index in
  \<open>[e - 100, e + 100)\<close>, else one past the first sentence break at an index in
  \<open>[e - 100, e + 50)\<close>, else \<open>e\<close> itself.
\<close>

definition window_end :: "string \<Rightarrow> int \<Rightarrow> int" where
  "window_end text e =
     (case first_in_window text paragraph_break (e - 100) (e + 100) of
        Some p \<Rightarrow> int p
      | None \<Rightarrow>
          (case first_in_window text sentence_break (e - 100) (e + 50) of
             Some p \<Rightarrow> int p + 1
           | None \<Rightarrow> e))"

text \<open>
  The occurrence of \<open>pat\<close> closest to \<open>e\<close> among those at a distance of at most
  \<open>radius\<close>.
\<close>

definition nearest_in_window :: "string \<Rightarrow> string \<Rightarrow> int \<Rightarrow> int \<Rightarrow> nat option" where
  "nearest_in_window text pat e radius =
     (case filter (occurs text pat) [nat (e - radius) ..< nat (e + radius + 1)] of
        [] \<Rightarrow> None
      | p # ps \<Rightarrow> Some (arg_min_list (\<lambda>q. \<bar>int q - e\<bar>) (p # ps)))"

text \<open>
  The content of the system message in words: the instruction for an empty library when
  no chunk is retrieved, otherwise the strict instruction followed by one numbered
  excerpt per retrieved chunk, in the order of retrieval.
\<close>

definition system_text :: "chunk list \<Rightarrow> string" where
  "system_text cs =
     (if cs = [] then no_documents_instruction
      else strict_instruction @
        concat (map2 (\<lambda>i c. ''Document excerpt '' @ show_nat (i + 1) @ '':\<newline>'' @ content c @
                        ''\<newline>\<newline>'')
                  [0..<length cs] cs))"

text \<open>
  The characters of \<open>text\<close> at the indices \<open>[a, b)\<close>.
\<close>

definition slice :: "string \<Rightarrow> nat \<Rightarrow> nat \<Rightarrow> string" where
  "slice text a b = take (b - a) (drop a text)"

text \<open>
  \<open>covers text overlap s cs\<close>: the chunks \<open>cs\<close> are cut from \<open>text\<close> by cursors that start
  at \<open>s\<close>. Each chunk but the last is the slice from its start cursor to its end cursor,
  the next start cursor is that end cursor minus \<open>overlap\<close> and lies beyond the previous
  start cursor, and the last chunk runs to the end of the text.
\<close>

fun covers :: "string \<Rightarrow> int \<Rightarrow> nat \<Rightarrow> string list \<Rightarrow> bool" where
  "covers text overlap s [] = (length text \<le> s)"
| "covers text overlap s [c] = (s < length text \<and> c = slice text s (length text))"
| "covers text overlap s (c # d # cs) =
     (let e = s + length c
      in e \<le> length text \<and> c = slice text s e \<and> int s < int e - overlap \<and>
         covers text overlap (nat (int e - overlap)) (d # cs))"

text \<open>
  Every chunk but the last without its final \<open>ov\<close> characters, followed by the last
  chunk.
\<close>

fun reassemble :: "nat \<Rightarrow> string list \<Rightarrow> string" where
  "reassemble ov [] = []"
| "reassemble ov [c] = c"
| "reassemble ov (c # d # cs) = take (length c - ov) c @ reassemble ov (d # cs)"

text \<open>
  Consecutive chunks share \<open>ov\<close> characters: the end of one is the start of the next.
\<close>

fun share_overlap :: "nat \<Rightarrow> string list \<Rightarrow> bool" where
  "share_overlap ov (c # d # cs) =
     (ov \<le> length c \<and> ov \<le> length d \<and> drop (length c - ov) c = take ov d \<and>
      share_overlap ov (d # cs))"
| "share_overlap ov cs = True"

text \<open>
  A cursor from which the loop body neither leaves the loop nor advances.
\<close>

definition stuck :: "string \<Rightarrow> int \<Rightarrow> int \<Rightarrow> int \<Rightarrow> bool" where
  "stuck text chunkSize overlap startPos =
     (startPos < int (length text) \<and> startPos + chunkSize < int (length text) \<and>
      snapEnd text (startPos + chunkSize) - overlap \<le> startPos)"

section \<open>Example data\<close>

definition looping_text :: string where
  "looping_text = ''Intro.'' @ paragraph_break @ replicate 100 (CHR ''a'')"

definition two_breaks_text :: string where
  "two_breaks_text =
     replicate 10 (CHR ''a'') @ paragraph_break @ replicate 87 (CHR ''b'') @ paragraph_break @
     replicate 20 (CHR ''c'')"

definition edge_break_text :: string where
  "edge_break_text = replicate 200 (CHR ''a'') @ paragraph_break @ replicate 10 (CHR ''b'')"

definition late_break_text :: string where
  "late_break_text = replicate 199 (CHR ''a'') @ paragraph_break @ replicate 10 (CHR ''b'')"

definition late_break_chunks :: "string list" where
  "late_break_chunks =
     [replicate 199 (CHR ''a''),
      replicate 20 (CHR ''a'') @ paragraph_break @ replicate 10 (CHR ''b'')]"

definition sentence_text :: string where
  "sentence_text = replicate 120 (CHR ''a'') @ sentence_break @ replicate 80 (CHR ''b'')"

definition sentence_chunks :: "string list" where
  "sentence_chunks =
     [replicate 120 (CHR ''a'') @ ''.'',
      replicate 19 (CHR ''a'') @ ''. '' @ replicate 80 (CHR ''b'')]"

definition chunk_up :: chunk where
  "chunk_up = \<lparr>documentId = 1, content = ''Refunds take five days.'', embedding = Some [0, 1]\<rparr>"

definition chunk_pending :: chunk where
  "chunk_pending = \<lparr>documentId = 1, content = ''Not embedded yet.'', embedding = None\<rparr>"

definition chunk_right :: chunk where
  "chunk_right = \<lparr>documentId = 2, content = ''Shipping is free.'', embedding = Some [2, 0]\<rparr>"

definition chunk_left :: chunk where
  "chunk_left = \<lparr>documentId = 2, content = ''Contact support.'', embedding = Some [- 1, 0]\<rparr>"

definition example_upload :: upload where
  "example_upload = \<lparr>path = ''uploads/17-setup.exe'', originalname = ''setup.exe'', file_size = 2\<rparr>"

definition example_state :: state where
  "example_state =
     \<lparr>documents =
        [\<lparr>doc_id = 1, doc_name = ''faq.txt'', doc_type = ''TXT'', doc_size = 40\<rparr>,
         \<lparr>doc_id = 2, doc_name = ''terms.md'', doc_type = ''MD'', doc_size = 33\<rparr>],
      documentChunks = [chunk_up, chunk_pending, chunk_right, chunk_left],
      messages = [\<lparr>msg_role = User, msg_content = ''Hello'', createdAt = 3\<rparr>,
                  \<lparr>msg_role = Assistant, msg_content = ''Hi'', createdAt = 4\<rparr>],
      next_id = 3,
      files = [''uploads/17-setup.exe'' \<mapsto> ''MZ'']\<rparr>"

definition orphan_state :: state where
  "orphan_state =
     \<lparr>documents = [], documentChunks = [chunk_up, chunk_right],
      messages = [], next_id = 3, files = Map.empty\<rparr>"

definition empty_library_state :: state where
  "empty_library_state =
     \<lparr>documents = [], documentChunks = [],
      messages = [\<lparr>msg_role = User, msg_content = ''Hello'', createdAt = 3\<rparr>,
                  \<lparr>msg_role = Assistant, msg_content = ''Hi'', createdAt = 4\<rparr>],
      next_id = 1, files = Map.empty\<rparr>"

definition example_history :: "chat_message list" where
  "example_history =
     [\<lparr>msg_role = User, msg_content = ''Hello''\<rparr>, \<lparr>msg_role = Assistant, msg_content = ''Hi''\<rparr>]"

definition embeddings_down :: "string \<Rightarrow> unit + real list" where
  "embeddings_down input = Inl ()"

definition embeddings_up :: "string \<Rightarrow> unit + real list" where
  "embeddings_up input = Inr [1, 0]"

definition completions_down :: "chat_message list \<Rightarrow> unit + chat_message" where
  "completions_down prompt = Inl ()"

text \<open>
  A stub of the completion endpoint that answers with the contents of the messages it
  received, in the order received.
\<close>

definition echo_prompt :: "chat_message list \<Rightarrow> unit + chat_message" where
  "echo_prompt prompt =
     Inr \<lparr>msg_role = Assistant, msg_content = concat (map (\<lambda>m. msg_content m @ ''|'') prompt)\<rparr>"

definition parser_stub :: "string \<Rightarrow> error + string" where
  "parser_stub dataBuffer = Inr dataBuffer"

lemmas example_defs = example_state_def chunk_up_def chunk_pending_def chunk_right_def
  chunk_left_def example_upload_def

section \<open>Searching for a pattern\<close>

lemma occurs_bound: "pat \<noteq> [] \<Longrightarrow> occurs text pat p \<Longrightarrow> p + length pat \<le> length text"
proof -
  assume a: "pat \<noteq> []" "occurs text pat p"
  then have "length (take (length pat) (drop p text)) = length pat"
    by (simp add: occurs_def)
  then have "min (length pat) (length text - p) = length pat" by simp
  with a(1) show ?thesis by (cases pat) auto
qed

lemma first_match_Some:
  "first_match pat s = Some j \<Longrightarrow> occurs s pat j \<and> (\<forall>i<j. \<not> occurs s pat i)"
proof (induction s arbitrary: j)
  case Nil
  then show ?case by (auto simp: occurs_def split: if_splits)
next
  case (Cons c cs)
  show ?case
  proof (cases "take (length pat) (c # cs) = pat")
    case True
    with Cons.prems show ?thesis by (simp add: occurs_def)
  next
    case False
    with Cons.prems obtain j' where j': "first_match pat cs = Some j'" "j = Suc j'"
      by auto
    from Cons.IH[OF j'(1)] have ih: "occurs cs pat j'" "\<forall>i<j'. \<not> occurs cs pat i" by auto
    have "\<not> occurs (c # cs) pat i" if "i < j" for i
    proof (cases i)
      case 0
      with False show ?thesis by (simp add: occurs_def)
    next
      case (Suc i')
      with that j'(2) ih(2) show ?thesis by (simp add: occurs_def)
    qed
    with ih(1) j'(2) show ?thesis by (simp add: occurs_def)
  qed
qed

lemma first_match_None: "first_match pat s = None \<Longrightarrow> \<not> occurs s pat i"
proof (induction s arbitrary: i)
  case Nil
  then show ?case by (auto simp: occurs_def split: if_splits)
next
  case (Cons c cs)
  from Cons.prems have ne: "take (length pat) (c # cs) \<noteq> pat" and n: "first_match pat cs = None"
    by (auto split: if_splits)
  show ?case
  proof (cases i)
    case 0
    with ne show ?thesis by (simp add: occurs_def)
  next
    case (Suc i')
    with Cons.IH[OF n, of i'] show ?thesis by (simp add: occurs_def)
  qed
qed

lemma occurs_drop: "occurs (drop k text) pat j = occurs text pat (k + j)"
  by (simp add: occurs_def add.commute)

lemma indexOf_found:
  assumes "indexOf text pat k \<noteq> - 1" and "pat \<noteq> []"
  shows "0 \<le> indexOf text pat k" and "k \<le> indexOf text pat k"
    and "occurs text pat (nat (indexOf text pat k))"
    and "indexOf text pat k + int (length pat) \<le> int (length text)"
proof -
  define k0 where "k0 = nat (min (max k 0) (int (length text)))"
  from assms(1) obtain j where j: "first_match pat (drop k0 text) = Some j"
    and r: "indexOf text pat k = int (k0 + j)"
    by (auto simp: indexOf_def Let_def k0_def split: option.splits)
  from first_match_Some[OF j] have o: "occurs text pat (k0 + j)"
    by (simp add: occurs_drop)
  show "0 \<le> indexOf text pat k" using r by simp
  from occurs_bound[OF assms(2) o] have b: "k0 + j + length pat \<le> length text" .
  have "0 < length pat" using assms(2) by simp
  then show "k \<le> indexOf text pat k" using r b unfolding k0_def by linarith
  have "nat (indexOf text pat k) = k0 + j" unfolding r by (rule nat_int)
  then show "occurs text pat (nat (indexOf text pat k))" using o by simp
  show "indexOf text pat k + int (length pat) \<le> int (length text)" using r b by simp
qed

lemma indexOf_least:
  assumes "occurs text pat p" and "k \<le> int p" and "pat \<noteq> []"
  shows "indexOf text pat k \<noteq> - 1" and "indexOf text pat k \<le> int p"
proof -
  define k0 where "k0 = nat (min (max k 0) (int (length text)))"
  from occurs_bound[OF assms(3,1)] have pb: "p + length pat \<le> length text" .
  with assms(2) have k0p: "k0 \<le> p" by (simp add: k0_def)
  then have o: "occurs (drop k0 text) pat (p - k0)" using assms(1) by (simp add: occurs_drop)
  then obtain j where j: "first_match pat (drop k0 text) = Some j"
    using first_match_None[of pat "drop k0 text" "p - k0"] by (cases "first_match pat (drop k0 text)") auto
  have "j \<le> p - k0"
  proof (rule ccontr)
    assume "\<not> j \<le> p - k0"
    then have "p - k0 < j" by simp
    with first_match_Some[OF j] o show False by blast
  qed
  moreover have r: "indexOf text pat k = int (k0 + j)"
    using j by (simp add: indexOf_def Let_def k0_def)
  ultimately show "indexOf text pat k \<noteq> - 1" and "indexOf text pat k \<le> int p"
    using k0p by auto
qed

lemma indexOf_mono:
  assumes "k' \<le> k" and "indexOf text pat k \<noteq> - 1" and "pat \<noteq> []"
  shows "indexOf text pat k' \<noteq> - 1" and "indexOf text pat k' \<le> indexOf text pat k"
proof -
  note f = indexOf_found[OF assms(2,3)]
  have le: "k' \<le> int (nat (indexOf text pat k))" using f(1,2) assms(1) by simp
  from indexOf_least[OF f(3) le assms(3)] f(1)
  show "indexOf text pat k' \<noteq> - 1" and "indexOf text pat k' \<le> indexOf text pat k"
    by simp_all
qed

lemma indexOf_same:
  assumes "k' \<le> k" and "indexOf text pat k' \<noteq> - 1" and "k \<le> indexOf text pat k'"
    and "pat \<noteq> []"
  shows "indexOf text pat k = indexOf text pat k'"
proof -
  note f' = indexOf_found[OF assms(2,4)]
  have le: "k \<le> int (nat (indexOf text pat k'))" using f'(1) assms(3) by simp
  from indexOf_least[OF f'(3) le assms(4)] f'(1)
  have n: "indexOf text pat k \<noteq> - 1" and u: "indexOf text pat k \<le> indexOf text pat k'"
    by simp_all
  from indexOf_mono[OF assms(1) n assms(4)] have "indexOf text pat k' \<le> indexOf text pat k"
    by simp
  with u show ?thesis by simp
qed

lemma find_upt_first:
  assumes "P p" "a \<le> p" "p < b" "\<And>q. a \<le> q \<Longrightarrow> q < p \<Longrightarrow> \<not> P q"
  shows "find P [a..<b] = Some p"
proof -
  have "\<exists>i<length [a..<b]. P ([a..<b] ! i) \<and> p = [a..<b] ! i \<and> (\<forall>j<i. \<not> P ([a..<b] ! j))"
  proof (intro exI[of _ "p - a"] conjI allI impI)
    show "p - a < length [a..<b]" using assms(2,3) by simp
    show "P ([a..<b] ! (p - a))" using assms(1,2,3) by simp
    show "p = [a..<b] ! (p - a)" using assms(2,3) by simp
    fix j assume "j < p - a"
    then show "\<not> P ([a..<b] ! j)" using assms(2,3) assms(4)[of "a + j"] by simp
  qed
  then show ?thesis by (simp add: find_Some_iff)
qed

lemma indexOf_window:
  assumes "pat \<noteq> []"
  shows "first_in_window text pat lo hi =
     (if indexOf text pat lo \<noteq> - 1 \<and> indexOf text pat lo < hi
      then Some (nat (indexOf text pat lo)) else None)"
proof (cases "indexOf text pat lo \<noteq> - 1 \<and> indexOf text pat lo < hi")
  case True
  let ?r = "indexOf text pat lo"
  note f = indexOf_found[OF conjunct1[OF True] assms]
  have "find (occurs text pat) [nat lo ..< nat hi] = Some (nat ?r)"
  proof (rule find_upt_first)
    show "occurs text pat (nat ?r)" by (rule f(3))
    show "nat lo \<le> nat ?r" using f(2) by simp
    show "nat ?r < nat hi" using True f(1) by simp
    fix q assume q: "nat lo \<le> q" "q < nat ?r"
    show "\<not> occurs text pat q"
    proof
      assume "occurs text pat q"
      from indexOf_least(2)[OF this _ assms, of lo] q(1) have "?r \<le> int q" by simp
      with q(2) show False by simp
    qed
  qed
  with True show ?thesis by (simp add: first_in_window_def)
next
  case False
  have "\<not> occurs text pat q" if "q \<in> set [nat lo ..< nat hi]" for q
  proof
    assume o: "occurs text pat q"
    from that have q: "nat lo \<le> q" "q < nat hi" by simp_all
    then have "lo \<le> int q" by simp
    from indexOf_least[OF o this assms] q(2) False show False by simp
  qed
  then have "find (occurs text pat) [nat lo ..< nat hi] = None"
    by (simp add: find_None_iff)
  with False show ?thesis by (simp add: first_in_window_def)
qed

lemma first_in_window_less:
  assumes "first_in_window text pat lo hi = Some p"
  shows "int p < hi"
proof -
  from assms have "p \<in> set [nat lo ..< nat hi]"
    unfolding first_in_window_def by (auto simp: find_Some_iff)
  then have "p < nat hi" by simp
  then show ?thesis by linarith
qed

section \<open>The adjusted end position\<close>

lemma breaks_nonempty: "paragraph_break \<noteq> []" "sentence_break \<noteq> []"
  "int (length paragraph_break) = 2" "int (length sentence_break) = 2"
  by (simp_all add: paragraph_break_def sentence_break_def)

lemma snapEnd_less_length:
  assumes "e < int (length text)"
  shows "snapEnd text e < int (length text)"
proof -
  let ?P = "indexOf text paragraph_break (e - 100)"
  let ?S = "indexOf text sentence_break (e - 100)"
  have p: "?P \<noteq> - 1 \<Longrightarrow> ?P + 2 \<le> int (length text)"
    using indexOf_found(4)[of "text" paragraph_break "e - 100"] breaks_nonempty by simp
  have s: "?S \<noteq> - 1 \<Longrightarrow> ?S + 2 \<le> int (length text)"
    using indexOf_found(4)[of "text" sentence_break "e - 100"] breaks_nonempty by simp
  show ?thesis using assms p s by (auto simp: snapEnd_def Let_def)
qed

lemma snapEnd_bounds:
  assumes "e < int (length text)"
  shows "e - 100 \<le> snapEnd text e" and "snapEnd text e \<le> e + 99"
proof -
  let ?P = "indexOf text paragraph_break (e - 100)"
  let ?S = "indexOf text sentence_break (e - 100)"
  have p: "?P \<noteq> - 1 \<Longrightarrow> e - 100 \<le> ?P"
    using indexOf_found(2)[of "text" paragraph_break "e - 100"] breaks_nonempty by simp
  have s: "?S \<noteq> - 1 \<Longrightarrow> e - 100 \<le> ?S"
    using indexOf_found(2)[of "text" sentence_break "e - 100"] breaks_nonempty by simp
  show "e - 100 \<le> snapEnd text e" using assms p s by (auto simp: snapEnd_def Let_def)
  show "snapEnd text e \<le> e + 99" using assms by (auto simp: snapEnd_def Let_def)
qed

lemma snapEnd_mono:
  assumes "e' \<le> e" and "e < int (length text)"
  shows "snapEnd text e' \<le> snapEnd text e"
proof -
  let ?P = "indexOf text paragraph_break (e - 100)"
  let ?S = "indexOf text sentence_break (e - 100)"
  let ?P' = "indexOf text paragraph_break (e' - 100)"
  let ?S' = "indexOf text sentence_break (e' - 100)"
  have k: "e' - 100 \<le> e - 100" using assms(1) by simp
  have S1: "?S \<noteq> - 1 \<Longrightarrow> e - 100 \<le> ?S"
    using indexOf_found(2)[of "text" sentence_break "e - 100"] breaks_nonempty by simp
  have P2: "?P \<noteq> - 1 \<Longrightarrow> ?P' \<noteq> - 1 \<and> ?P' \<le> ?P"
    using indexOf_mono[OF k, of "text" paragraph_break] breaks_nonempty by simp
  have S2: "?S \<noteq> - 1 \<Longrightarrow> ?S' \<noteq> - 1 \<and> ?S' \<le> ?S"
    using indexOf_mono[OF k, of "text" sentence_break] breaks_nonempty by simp
  have P3: "?P' \<noteq> - 1 \<Longrightarrow> e - 100 \<le> ?P' \<Longrightarrow> ?P = ?P'"
    using indexOf_same[OF k, of "text" paragraph_break] breaks_nonempty by simp
  have S3: "?S' \<noteq> - 1 \<Longrightarrow> e - 100 \<le> ?S' \<Longrightarrow> ?S = ?S'"
    using indexOf_same[OF k, of "text" sentence_break] breaks_nonempty by simp
  have e': "e' < int (length text)" using assms by simp
  have P4: "?P' < e - 100"
    if "?P' \<noteq> - 1" "?P' < e' + 100" "\<not> (?P \<noteq> - 1 \<and> ?P < e + 100)"
  proof (rule ccontr)
    assume "\<not> ?P' < e - 100"
    then have "?P = ?P'" using P3 that(1) by simp
    with that assms(1) show False by simp
  qed
  have S4: "?S' < e - 100"
    if "?S' \<noteq> - 1" "?S' < e' + 50" "\<not> (?S \<noteq> - 1 \<and> ?S < e + 50)"
  proof (rule ccontr)
    assume "\<not> ?S' < e - 100"
    then have "?S = ?S'" using S3 that(1) by simp
    with that assms(1) show False by simp
  qed
  define pa where "pa = (?P \<noteq> - 1 \<and> ?P < e + 100)"
  define sa where "sa = (?S \<noteq> - 1 \<and> ?S < e + 50)"
  define pa' where "pa' = (?P' \<noteq> - 1 \<and> ?P' < e' + 100)"
  define sa' where "sa' = (?S' \<noteq> - 1 \<and> ?S' < e' + 50)"
  have r: "snapEnd text e = (if pa then ?P else if sa then ?S + 1 else e)"
    using assms(2) by (simp add: snapEnd_def Let_def pa_def sa_def)
  have r': "snapEnd text e' = (if pa' then ?P' else if sa' then ?S' + 1 else e')"
    using e' by (simp add: snapEnd_def Let_def pa'_def sa'_def)
  consider (para) "pa" | (sent) "\<not> pa" "sa" | (none) "\<not> pa" "\<not> sa"
    by blast
  then show ?thesis
  proof cases
    case para
    then have le: "?P' \<noteq> - 1" "?P' \<le> ?P" using P2 by (simp_all add: pa_def)
    have "snapEnd text e' \<le> ?P"
    proof (cases pa')
      case True
      then show ?thesis using r' le by simp
    next
      case False
      then have far: "e' + 100 \<le> ?P'" using le(1) by (simp add: pa'_def)
      show ?thesis
      proof (cases sa')
        case True
        then show ?thesis using r' False far le(2) by (simp add: sa'_def)
      next
        case F2: False
        then show ?thesis using r' False far le(2) by simp
      qed
    qed
    with r para show ?thesis by simp
  next
    case sent
    then have s: "?S \<noteq> - 1" "?S < e + 50" "e - 100 \<le> ?S" using S1 by (simp_all add: sa_def)
    have np: "\<not> (?P \<noteq> - 1 \<and> ?P < e + 100)" using sent(1) by (simp add: pa_def)
    have le: "?S' \<noteq> - 1" "?S' \<le> ?S" using S2 s(1) by simp_all
    have "snapEnd text e' \<le> ?S + 1"
    proof (cases pa')
      case True
      then have "?P' < e - 100" using P4 np by (simp add: pa'_def)
      then show ?thesis using r' True s(3) by simp
    next
      case False
      show ?thesis
      proof (cases sa')
        case True
        then show ?thesis using r' False le(2) by simp
      next
        case F2: False
        then have "e' + 50 \<le> ?S'" using le(1) by (simp add: sa'_def)
        then show ?thesis using r' False F2 le(2) by simp
      qed
    qed
    with r sent show ?thesis by simp
  next
    case none
    have np: "\<not> (?P \<noteq> - 1 \<and> ?P < e + 100)" using none(1) by (simp add: pa_def)
    have ns: "\<not> (?S \<noteq> - 1 \<and> ?S < e + 50)" using none(2) by (simp add: sa_def)
    have "snapEnd text e' \<le> e"
    proof (cases pa')
      case True
      then have "?P' < e - 100" using P4 np by (simp add: pa'_def)
      then show ?thesis using r' True by simp
    next
      case False
      show ?thesis
      proof (cases sa')
        case True
        then have "?S' < e - 100" using S4 ns by (simp add: sa'_def)
        then show ?thesis using r' False True by simp
      next
        case F2: False
        then show ?thesis using r' False assms(1) by simp
      qed
    qed
    with r none show ?thesis by simp
  qed
qed

lemma snapEnd_window:
  assumes "e < int (length text)"
  shows "snapEnd text e = window_end text e"
proof -
  note p = indexOf_window[OF breaks_nonempty(1), of "text" "e - 100" "e + 100"]
  note s = indexOf_window[OF breaks_nonempty(2), of "text" "e - 100" "e + 50"]
  have p0: "indexOf text paragraph_break (e - 100) \<noteq> - 1 \<Longrightarrow>
      0 \<le> indexOf text paragraph_break (e - 100)"
    using indexOf_found(1)[OF _ breaks_nonempty(1)] by simp
  have s0: "indexOf text sentence_break (e - 100) \<noteq> - 1 \<Longrightarrow>
      0 \<le> indexOf text sentence_break (e - 100)"
    using indexOf_found(1)[OF _ breaks_nonempty(2)] by simp
  show ?thesis
    unfolding window_end_def p s using assms p0 s0 by (auto simp: snapEnd_def Let_def)
qed

lemma window_end_sentence_bound:
  assumes "first_in_window text paragraph_break (e - 100) (e + 100) = None"
  shows "window_end text e \<le> e + 50"
proof (cases "first_in_window text sentence_break (e - 100) (e + 50)")
  case None
  with assms show ?thesis by (simp add: window_end_def)
next
  case (Some p)
  from first_in_window_less[OF Some] assms Some show ?thesis by (simp add: window_end_def)
qed

lemma chunkEnd_snapped:
  assumes "startPos + chunkSize < int (length text)"
  shows "chunkEnd text startPos chunkSize = snapEnd text (startPos + chunkSize)"
    and "chunkEnd text startPos chunkSize < int (length text)"
  using snapEnd_less_length[OF assms] by (simp_all add: chunkEnd_def)

lemma chunkEnd_at_length:
  assumes "\<not> startPos + chunkSize < int (length text)"
  shows "chunkEnd text startPos chunkSize = int (length text)"
  using assms by (simp add: chunkEnd_def snapEnd_def)

lemma chunkEnd_le_length: "chunkEnd text startPos chunkSize \<le> int (length text)"
  by (simp add: chunkEnd_def)

section \<open>Substrings\<close>

lemma clamp_lipschitz:
  fixes s e L :: int
  assumes "0 \<le> L"
  shows "max (min (max s 0) L) (min (max e 0) L) - min (min (max s 0) L) (min (max e 0) L) \<le> \<bar>e - s\<bar>"
proof (cases "s \<le> e")
  case True
  then have "min (max s 0) L \<le> min (max e 0) L" by (simp add: min_def max_def)
  then have "max (min (max s 0) L) (min (max e 0) L) - min (min (max s 0) L) (min (max e 0) L)
      = min (max e 0) L - min (max s 0) L" by simp
  also have "\<dots> \<le> e - s" using True by (simp add: min_def max_def)
  finally show ?thesis using True by simp
next
  case False
  then have "min (max e 0) L \<le> min (max s 0) L" by (simp add: min_def max_def)
  then have "max (min (max s 0) L) (min (max e 0) L) - min (min (max s 0) L) (min (max e 0) L)
      = min (max s 0) L - min (max e 0) L" by simp
  also have "\<dots> \<le> s - e" using False by (simp add: min_def max_def)
  finally show ?thesis using False by simp
qed

lemma length_substring_le: "int (length (substring text s e)) \<le> \<bar>e - s\<bar>"
proof -
  define s0 where "s0 = min (max s 0) (int (length text))"
  define e0 where "e0 = min (max e 0) (int (length text))"
  have "length (substring text s e) \<le> nat (max s0 e0 - min s0 e0)"
    by (simp add: substring_def Let_def s0_def e0_def)
  then have "int (length (substring text s e)) \<le> max s0 e0 - min s0 e0" by linarith
  also have "\<dots> \<le> \<bar>e - s\<bar>" unfolding s0_def e0_def by (rule clamp_lipschitz) simp
  finally show ?thesis .
qed

lemma substring_slice:
  assumes "0 \<le> s" "s \<le> e" "e \<le> int (length text)"
  shows "substring text s e = slice text (nat s) (nat e)"
proof -
  have "nat (e - s) = nat e - nat s" using assms by simp
  then show ?thesis using assms by (simp add: substring_def slice_def Let_def min_def max_def)
qed

lemma length_slice: "a \<le> b \<Longrightarrow> b \<le> length text \<Longrightarrow> length (slice text a b) = b - a"
  by (simp add: slice_def)

lemma chunk_length_bound:
  assumes "startPos < int (length text)" and "0 < chunkSize"
  shows "int (length (substring text startPos (chunkEnd text startPos chunkSize))) \<le> chunkSize + 99"
proof -
  let ?E = "chunkEnd text startPos chunkSize"
  have b: "(startPos + chunkSize - 100 \<le> ?E \<or> startPos < ?E) \<and> ?E \<le> startPos + chunkSize + 99"
  proof (cases "startPos + chunkSize < int (length text)")
    case True
    from chunkEnd_snapped(1)[OF True] snapEnd_bounds[OF True] show ?thesis by simp
  next
    case False
    from chunkEnd_at_length[OF False] assms False show ?thesis by simp
  qed
  have "int (length (substring text startPos ?E)) \<le> \<bar>?E - startPos\<bar>"
    by (rule length_substring_le)
  also have "\<dots> \<le> chunkSize + 99" using b assms(2) by linarith
  finally show ?thesis .
qed

section \<open>Runs of the loop\<close>

text \<open>
  One unfolding of the loop for each of its three exits, the induction rule of the
  partial function, and from it an induction rule over the runs that return.
\<close>

lemma chunk_loop_unfold_continue:
  assumes "startPos < int (length text)"
    and "\<not> (int (length text) \<le> chunkEnd text startPos chunkSize - overlap \<or>
          chunkEnd text startPos chunkSize = int (length text))"
  shows "chunk_loop text chunkSize overlap startPos chunks =
         chunk_loop text chunkSize overlap (chunkEnd text startPos chunkSize - overlap)
           (chunks @ [substring text startPos (chunkEnd text startPos chunkSize)])"
  using assms by (subst chunk_loop.simps) (auto simp: Let_def)

lemma chunk_loop_unfold_exit:
  assumes "startPos < int (length text)"
    and "int (length text) \<le> chunkEnd text startPos chunkSize - overlap \<or>
          chunkEnd text startPos chunkSize = int (length text)"
  shows "chunk_loop text chunkSize overlap startPos chunks =
         Some (chunks @ [substring text startPos (chunkEnd text startPos chunkSize)])"
  using assms by (subst chunk_loop.simps) (auto simp: Let_def)

lemma chunk_loop_unfold_stop:
  assumes "\<not> startPos < int (length text)"
  shows "chunk_loop text chunkSize overlap startPos chunks = Some chunks"
  using assms by (subst chunk_loop.simps) simp

lemmas chunk_loop_induct = chunk_loop.raw_induct[rotated, consumes 1, case_names body]

lemma chunk_loop_run_induct [consumes 1, case_names stop last step]:
  assumes run: "chunk_loop text chunkSize overlap startPos chunks = Some r"
    and stop: "\<And>startPos chunks. \<not> startPos < int (length text) \<Longrightarrow> P startPos chunks chunks"
    and last: "\<And>startPos chunks.
        startPos < int (length text) \<Longrightarrow>
        int (length text) \<le> chunkEnd text startPos chunkSize - overlap \<or>
          chunkEnd text startPos chunkSize = int (length text) \<Longrightarrow>
        P startPos chunks (chunks @ [substring text startPos (chunkEnd text startPos chunkSize)])"
    and step: "\<And>startPos chunks r.
        startPos < int (length text) \<Longrightarrow>
        \<not> (int (length text) \<le> chunkEnd text startPos chunkSize - overlap \<or>
          chunkEnd text startPos chunkSize = int (length text)) \<Longrightarrow>
        chunk_loop text chunkSize overlap startPos chunks = Some r \<Longrightarrow>
        P (chunkEnd text startPos chunkSize - overlap)
          (chunks @ [substring text startPos (chunkEnd text startPos chunkSize)]) r \<Longrightarrow>
        P startPos chunks r"
  shows "P startPos chunks r"
proof -
  have "chunk_loop t c ov s acc = Some y \<and>
        (t = text \<and> c = chunkSize \<and> ov = overlap \<longrightarrow> P s acc y)"
    if "chunk_loop t c ov s acc = Some y" for t c ov s acc y
    using that
  proof (induction rule: chunk_loop_induct)
    case (body f t c ov s acc y)
    let ?E = "chunkEnd t s c"
    let ?exit = "int (length t) \<le> ?E - ov \<or> ?E = int (length t)"
    show ?case
    proof (cases "s < int (length t)")
      case False
      with body.hyps have y: "y = acc" by simp
      show ?thesis using chunk_loop_unfold_stop[OF False] stop y False by auto
    next
      case True
      show ?thesis
      proof (cases ?exit)
        case ex: True
        with body.hyps True have y: "y = acc @ [substring t s ?E]"
          by (auto simp: Let_def)
        show ?thesis using chunk_loop_unfold_exit[OF True ex] last y True ex by auto
      next
        case nex: False
        with body.hyps True
        have a: "f t c ov (?E - ov) (acc @ [substring t s ?E]) = Some y"
          by (auto simp: Let_def)
        note ih = body.IH[OF a]
        have run': "chunk_loop t c ov s acc = Some y"
          using ih chunk_loop_unfold_continue[OF True nex] by simp
        show ?thesis using run' ih step True nex by auto
      qed
    qed
  qed
  from this[OF run] show ?thesis by simp
qed

text \<open>
  The adjusted end position is monotone in the proposed one, so a cursor that fails to
  advance once never advances again: the loop does not return from it.
\<close>

lemma stuck_next:
  assumes "stuck text chunkSize overlap startPos"
  shows "stuck text chunkSize overlap (chunkEnd text startPos chunkSize - overlap)"
proof -
  from assms have s: "startPos < int (length text)" and e: "startPos + chunkSize < int (length text)"
    and b: "snapEnd text (startPos + chunkSize) - overlap \<le> startPos"
    by (simp_all add: stuck_def)
  let ?s' = "chunkEnd text startPos chunkSize - overlap"
  have eq: "?s' = snapEnd text (startPos + chunkSize) - overlap"
    using chunkEnd_snapped(1)[OF e] by simp
  have le: "?s' + chunkSize \<le> startPos + chunkSize" using eq b by simp
  from snapEnd_mono[OF le e] have "snapEnd text (?s' + chunkSize) - overlap \<le> ?s'"
    using eq by simp
  with le e eq b s show ?thesis by (simp add: stuck_def)
qed

lemma chunk_loop_not_stuck:
  assumes "chunk_loop text chunkSize overlap startPos chunks = Some r"
  shows "\<not> stuck text chunkSize overlap startPos"
  using assms
proof (induction rule: chunk_loop_induct)
  case (body f t chunkSize overlap startPos chunks r)
  show ?case
  proof
    assume st: "stuck t chunkSize overlap startPos"
    then have s: "startPos < int (length t)" and e: "startPos + chunkSize < int (length t)"
      and b: "snapEnd t (startPos + chunkSize) - overlap \<le> startPos"
      by (simp_all add: stuck_def)
    let ?E = "chunkEnd t startPos chunkSize"
    have E: "?E < int (length t)" "?E - overlap \<le> startPos"
      using chunkEnd_snapped[OF e] b by simp_all
    with s body.hyps have a: "f t chunkSize overlap (?E - overlap)
        (chunks @ [substring t startPos ?E]) = Some r"
      by (simp add: Let_def)
    from body.IH[OF a] stuck_next[OF st] show False by simp
  qed
qed

lemma chunk_loop_stuck_None:
  "stuck text chunkSize overlap startPos \<Longrightarrow> chunk_loop text chunkSize overlap startPos chunks = None"
  using chunk_loop_not_stuck[of "text" chunkSize overlap startPos chunks]
  by (cases "chunk_loop text chunkSize overlap startPos chunks") auto

text \<open>
  When the chunk size exceeds the overlap by more than the width of the backward window,
  every iteration advances the cursor and the loop returns. The parameters of
  \<^verbatim>\<open>processDocumentChunks\<close>, 1000 and 200, are of this kind.
\<close>

lemma chunk_loop_terminates:
  assumes "overlap + 100 < chunkSize"
  shows "\<exists>r. chunk_loop text chunkSize overlap startPos chunks = Some r"
proof (induction "nat (int (length text) - startPos)" arbitrary: startPos chunks rule: less_induct)
  case less
  let ?E = "chunkEnd text startPos chunkSize"
  show ?case
  proof (cases "startPos < int (length text)")
    case False
    then show ?thesis using chunk_loop_unfold_stop by blast
  next
    case True
    show ?thesis
    proof (cases "int (length text) \<le> ?E - overlap \<or> ?E = int (length text)")
      case ex: True
      then show ?thesis using chunk_loop_unfold_exit[OF True ex] by blast
    next
      case nex: False
      then have e: "startPos + chunkSize < int (length text)"
        using chunkEnd_at_length[of startPos chunkSize "text"] by auto
      have "startPos + chunkSize - 100 \<le> ?E"
        using chunkEnd_snapped(1)[OF e] snapEnd_bounds(1)[OF e] by simp
      with assms have adv: "startPos < ?E - overlap" by simp
      have "nat (int (length text) - (?E - overlap)) < nat (int (length text) - startPos)"
        using adv True by simp
      from less[OF this] chunk_loop_unfold_continue[OF True nex]
      show ?thesis by simp
    qed
  qed
qed

lemma splitTextIntoChunks_terminates:
  "overlap + 100 < chunkSize \<Longrightarrow> \<exists>chunks. splitTextIntoChunks text chunkSize overlap = Some chunks"
  unfolding splitTextIntoChunks_def by (rule chunk_loop_terminates)

section \<open>What a returning run produces\<close>

lemma chunk_loop_bounded:
  assumes run: "chunk_loop text chunkSize overlap startPos chunks = Some r"
    and cs: "0 < chunkSize"
    and acc: "\<forall>c\<in>set chunks. int (length c) \<le> chunkSize + 99"
  shows "\<forall>c\<in>set r. int (length c) \<le> chunkSize + 99"
  using run acc
proof (induction rule: chunk_loop_run_induct)
  case (stop startPos chunks)
  then show ?case by simp
next
  case (last startPos chunks)
  then show ?case using chunk_length_bound[OF last(1) cs] by simp
next
  case (step startPos chunks r)
  then show ?case using chunk_length_bound[OF step(1) cs] by simp
qed

lemma covers_nonempty: "s < length text \<Longrightarrow> covers text overlap s cs \<Longrightarrow> cs \<noteq> []"
  by (cases cs) auto

lemma chunk_loop_covers:
  assumes run: "chunk_loop text chunkSize overlap startPos chunks = Some r"
    and ov: "0 \<le> overlap" and s0: "0 \<le> startPos"
  shows "\<exists>new. r = chunks @ new \<and> covers text overlap (nat startPos) new"
  using run s0
proof (induction rule: chunk_loop_run_induct)
  case (stop startPos chunks)
  then have "covers text overlap (nat startPos) []" by simp
  then show ?case by blast
next
  case (last startPos chunks)
  have "chunkEnd text startPos chunkSize = int (length text)"
    using last(2) ov chunkEnd_le_length[of "text" startPos chunkSize] by auto
  then have "substring text startPos (chunkEnd text startPos chunkSize) =
      slice text (nat startPos) (length text)"
    using substring_slice[of startPos "int (length text)" "text"] last by simp
  then have "covers text overlap (nat startPos)
      [substring text startPos (chunkEnd text startPos chunkSize)]"
    using last by simp
  then show ?case by blast
next
  case (step startPos chunks r)
  let ?E = "chunkEnd text startPos chunkSize"
  let ?c = "substring text startPos ?E"
  have e: "startPos + chunkSize < int (length text)"
    using step(2) chunkEnd_at_length[of startPos chunkSize "text"] by auto
  have E: "?E = snapEnd text (startPos + chunkSize)" "?E < int (length text)"
    using chunkEnd_snapped[OF e] by simp_all
  have adv: "startPos < ?E - overlap"
    using chunk_loop_not_stuck[OF step(3)] step(1) e E(1) by (simp add: stuck_def)
  then have sE: "startPos \<le> ?E" using ov by simp
  have c: "?c = slice text (nat startPos) (nat ?E)"
    using substring_slice[OF step.prems sE] E(2) by simp
  have lc: "nat startPos + length ?c = nat ?E"
    using c length_slice[of "nat startPos" "nat ?E" "text"] sE step.prems E(2) by simp
  from step.IH adv step.prems obtain new where new: "r = (chunks @ [?c]) @ new"
    "covers text overlap (nat (?E - overlap)) new" by auto
  have "nat (?E - overlap) < length text" using step(2) adv step.prems by arith
  from covers_nonempty[OF this new(2)] obtain d ds where d: "new = d # ds"
    by (cases new) auto
  have "int (nat ?E) = ?E" using sE step.prems by simp
  then have "covers text overlap (nat startPos) (?c # d # ds)"
    using new(2) d lc c E(2) adv step.prems by (simp add: Let_def)
  with new(1) d show ?case by simp
qed

lemma nat_cursor:
  fixes overlap :: int and s n :: nat
  assumes "0 \<le> overlap" and "int s < int (s + n) - overlap"
  shows "nat overlap < n" and "nat (int (s + n) - overlap) = s + (n - nat overlap)"
    and "nat (int (s + n) - overlap) + nat overlap = s + n"
    and "s < nat (int (s + n) - overlap)"
proof -
  obtain k where k: "overlap = int k" using assms(1) nonneg_int_cases by blast
  with assms(2) have kn: "k < n" by simp
  then have "int (s + n) - int k = int (s + (n - k))" by simp
  then have eq: "nat (int (s + n) - overlap) = s + (n - k)" unfolding k by (simp only: nat_int)
  show "nat overlap < n" using kn k by simp
  show "nat (int (s + n) - overlap) = s + (n - nat overlap)" using eq k by simp
  show "nat (int (s + n) - overlap) + nat overlap = s + n" using eq k kn by simp
  show "s < nat (int (s + n) - overlap)" using eq kn by simp
qed

lemma covers_reassemble:
  "0 \<le> overlap \<Longrightarrow> covers text overlap s cs \<Longrightarrow> reassemble (nat overlap) cs = drop s text"
proof (induction "text" overlap s cs rule: covers.induct)
  case (1 t overlap s)
  then show ?case by simp
next
  case (2 t overlap s c)
  then show ?case by (simp add: slice_def)
next
  case (3 t overlap s c d cs)
  let ?e = "s + length c"
  note assms = "3.prems"(1)
  from "3.prems" have e: "?e \<le> length t" and c: "c = slice t s ?e"
    and adv: "int s < int ?e - overlap"
    and rest: "covers t overlap (nat (int ?e - overlap)) (d # cs)"
    by (simp_all add: Let_def)
  have ih: "reassemble (nat overlap) (d # cs) = drop (nat (int ?e - overlap)) t"
    using "3.IH"[OF refl assms rest] by simp
  define k where "k = length c - nat overlap"
  have k: "nat (int ?e - overlap) = s + k" unfolding k_def using nat_cursor(2)[OF assms adv] .
  have "take k c = take k (drop s t)"
    by (subst c) (simp add: slice_def k_def min_def)
  moreover have "drop (s + k) t = drop k (drop s t)" by (simp add: add.commute)
  ultimately have "take k c @ drop (s + k) t = drop s t" by (simp only: append_take_drop_id)
  then show ?case using ih k by (simp add: k_def)
qed

lemma covers_share_overlap:
  "0 \<le> overlap \<Longrightarrow> covers text overlap s cs \<Longrightarrow> share_overlap (nat overlap) cs"
proof (induction "text" overlap s cs rule: covers.induct)
  case (1 t overlap s)
  then show ?case by simp
next
  case (2 t overlap s c)
  then show ?case by simp
next
  case (3 t overlap s c d cs)
  let ?e = "s + length c"
  let ?s' = "nat (int ?e - overlap)"
  note assms = "3.prems"(1)
  from "3.prems" have e: "?e \<le> length t" and c: "c = slice t s ?e"
    and adv: "int s < int ?e - overlap"
    and rest: "covers t overlap ?s' (d # cs)"
    by (simp_all add: Let_def)
  have ih: "share_overlap (nat overlap) (d # cs)" using "3.IH"[OF refl assms rest] .
  have s': "?s' + nat overlap = ?e" "s < ?s'" using nat_cursor(3,4)[OF assms adv] by simp_all
  have diff: "a + b = n \<Longrightarrow> n - a = b" for a b n :: nat by simp
  have de: "?e - ?s' = nat overlap" using s'(1) by (rule diff)
  have dpre: "nat overlap \<le> length d \<and> take (nat overlap) d = slice t ?s' ?e"
  proof (cases cs)
    case Nil
    with rest have "d = slice t ?s' (length t)" by simp
    then have "d = drop ?s' t" by (simp add: slice_def)
    moreover have "nat overlap \<le> length t - ?s'" using e de by simp
    ultimately show ?thesis using de by (simp add: slice_def)
  next
    case (Cons d' ds)
    with rest have d: "d = slice t ?s' (?s' + length d)" "?s' + length d \<le> length t"
      "int ?s' < int (?s' + length d) - overlap" by (simp_all add: Let_def)
    from nat_cursor(1)[OF assms d(3)] have "nat overlap \<le> length d" by simp
    moreover have "take (nat overlap) d = take (nat overlap) (drop ?s' t)"
      using calculation by (subst d(1)) (simp add: slice_def min_def)
    ultimately show ?thesis using de by (simp add: slice_def)
  qed
  have lc: "nat overlap \<le> length c" using nat_cursor(1)[OF assms adv] by simp
  have "drop (length c - nat overlap) c = slice t ?s' ?e"
  proof -
    have a: "s + (length c - nat overlap) = ?s'" using nat_cursor(2)[OF assms adv] by simp
    have b: "length c - (length c - nat overlap) = ?e - ?s'" using de lc by simp
    have "drop (length c - nat overlap) c =
        take (length c - (length c - nat overlap)) (drop (length c - nat overlap) (drop s t))"
      by (subst c) (simp add: slice_def drop_take)
    then show ?thesis using a b by (simp add: slice_def add.commute)
  qed
  with dpre lc ih show ?case by simp
qed

section \<open>Sorting and the prompt\<close>

lemma set_insert_by: "set (insert_by cmp x ys) = insert x (set ys)"
  by (induction ys) auto

lemma length_insert_by: "length (insert_by cmp x ys) = Suc (length ys)"
  by (induction ys) auto

lemma sorted_insert_by:
  "sorted_wrt (\<lambda>a b. f b \<le> f a) ys \<Longrightarrow>
   sorted_wrt (\<lambda>a b. f b \<le> f a) (insert_by (\<lambda>a b. f b - f a) x ys)"
proof (induction ys)
  case Nil
  then show ?case by simp
next
  case (Cons y ys)
  show ?case
  proof (cases "f y - f x \<le> 0")
    case True
    with Cons.prems show ?thesis by auto
  next
    case False
    with Cons show ?thesis by (auto simp: set_insert_by)
  qed
qed

lemma set_js_sort: "set (js_sort cmp xs) = set xs"
  unfolding js_sort_def by (induction xs) (simp_all add: set_insert_by)

lemma length_js_sort: "length (js_sort cmp xs) = length xs"
  unfolding js_sort_def by (induction xs) (simp_all add: length_insert_by)

lemma sorted_js_sort:
  "sorted_wrt (\<lambda>a b. f b \<le> f a) (js_sort (\<lambda>a b. f b - f a) xs)"
  unfolding js_sort_def by (induction xs) (simp_all add: sorted_insert_by)

lemma sorted_wrt_map_fst:
  assumes "sorted_wrt (\<lambda>a b. snd b \<le> snd a) ps" and "\<forall>p\<in>set ps. snd p = g (fst p)"
  shows "sorted_wrt (\<lambda>a b. g b \<le> g a) (map fst ps)"
  using assms by (induction ps) (auto simp: sorted_wrt_map)

lemma foldl_excerpts:
  "foldl (\<lambda>contextText (i, c). contextText @ excerpt i c) acc ps =
   acc @ concat (map (\<lambda>(i, c). excerpt i c) ps)"
  by (induction ps arbitrary: acc) auto

lemma contextTextOf_nonempty:
  assumes "cs \<noteq> []"
  shows "contextTextOf cs = strict_instruction @ concat (map2 excerpt [0..<length cs] cs)"
  using assms by (simp add: contextTextOf_def foldl_excerpts enumerate_eq_zip)

lemma sublist_excerpt: "sublist (content c) (excerpt i c)"
  unfolding excerpt_def sublist_def by (metis append.assoc)

lemma sublist_concat_member:
  assumes "x \<in> set xs"
  shows "sublist x (concat xs)"
proof -
  from assms obtain ys zs where "xs = ys @ x # zs" by (auto simp: in_set_conv_decomp)
  then have "concat xs = concat ys @ x @ concat zs" by simp
  then show ?thesis unfolding sublist_def by blast
qed

lemma content_in_context:
  assumes "c \<in> set cs"
  shows "sublist (content c) (contextTextOf cs)"
proof -
  from assms have ne: "cs \<noteq> []" by auto
  from assms obtain i where i: "i < length cs" "cs ! i = c" by (auto simp: in_set_conv_nth)
  then have "(i, c) \<in> set (zip [0..<length cs] cs)"
    by (auto simp: in_set_zip intro!: exI[of _ i])
  then have "excerpt i c \<in> set (map2 excerpt [0..<length cs] cs)" by force
  then have "sublist (excerpt i c) (concat (map2 excerpt [0..<length cs] cs))"
    by (rule sublist_concat_member)
  then obtain ps ss where "concat (map2 excerpt [0..<length cs] cs) = ps @ excerpt i c @ ss"
    unfolding sublist_def by blast
  then have "contextTextOf cs = (strict_instruction @ ps) @ excerpt i c @ ss"
    unfolding contextTextOf_nonempty[OF ne] by simp
  then have "sublist (excerpt i c) (contextTextOf cs)"
    unfolding sublist_def by blast
  with sublist_excerpt show ?thesis by (metis sublist_order.order_trans)
qed

lemma contextTextOf_system_text: "contextTextOf cs = system_text cs"
proof (cases "cs = []")
  case True
  then show ?thesis by (simp add: contextTextOf_def system_text_def)
next
  case False
  have e: "excerpt = (\<lambda>i c. ''Document excerpt '' @ show_nat (i + 1) @ '':\<newline>'' @ content c @
                        ''\<newline>\<newline>'')"
    by (intro ext) (simp add: excerpt_def)
  have "contextTextOf cs = strict_instruction @ concat (map2 excerpt [0..<length cs] cs)"
    by (rule contextTextOf_nonempty[OF False])
  also have "\<dots> = system_text cs"
    unfolding system_text_def using False by (subst e) simp
  finally show ?thesis .
qed

lemma searchSimilarChunks_none_embedded:
  assumes "\<forall>c\<in>set (documentChunks s). embedding c = None"
  shows "searchSimilarChunks similarity s q limit = []"
proof -
  have "filter (\<lambda>c. embedding c \<noteq> None) (documentChunks s) = []"
    using assms by (simp add: filter_empty_conv)
  then show ?thesis by (simp add: searchSimilarChunks_def js_sort_def)
qed

lemma cleanup_keeps_store:
  "documents (cleanup file st) = documents st"
  "documentChunks (cleanup file st) = documentChunks st"
  "messages (cleanup file st) = messages st"
  by (simp_all add: cleanup_def unlinkSync_def)

lemma cleanup_removes: "path file \<noteq> [] \<Longrightarrow> files (cleanup file st) (path file) = None"
  by (simp add: cleanup_def unlinkSync_def)

lemma unsupported_extension_fails:
  "fileExtension \<notin> {''.pdf'', ''.docx'', ''.txt'', ''.md''} \<Longrightarrow>
   extractText pdfParse extractRawText fileExtension file st = Inl (Error ''Unsupported file type'')"
  by (simp add: extractText_def)

section \<open>The properties\<close>

text \<open>
  Claim C1 (termination of the chunker for every chunk size above the overlap). The
  guard at the end of the loop body leaves the loop only when the end position has
  reached the end of the text. On a text of 108 characters that opens with a short
  paragraph, with chunk size 100 and overlap 20, the end position snaps back to the
  paragraph break at index 6, the next cursor is \<open>-14\<close>, and every later iteration does the
  same: the call never returns.
\<close>

theorem splitTextIntoChunks_diverges: "splitTextIntoChunks looping_text 100 20 = None"
proof -
  have "stuck looping_text 100 20 0" by code_simp
  then show ?thesis unfolding splitTextIntoChunks_def by (rule chunk_loop_stuck_None)
qed

text \<open>
  Claim C2 (postcondition of the ranker): for every stored chunk set, query vector,
  similarity function and limit, the result has at most \<open>limit\<close> chunks, each of them
  is a stored chunk whose embedding is present, and the similarity to the query does
  not increase along the result.
\<close>

theorem searchSimilarChunks_ranked:
  "length (searchSimilarChunks similarity st q limit) \<le> limit \<and>
   (\<forall>c\<in>set (searchSimilarChunks similarity st q limit).
      c \<in> set (documentChunks st) \<and> embedding c \<noteq> None) \<and>
   sorted_wrt (\<lambda>a b. similarity q (the (embedding b)) \<le> similarity q (the (embedding a)))
     (searchSimilarChunks similarity st q limit)"
proof -
  define found where "found = filter (\<lambda>c. embedding c \<noteq> None) (documentChunks st)"
  define scored where "scored = map (\<lambda>c. (c, similarity q (the (embedding c)))) found"
  define ranked where "ranked = js_sort (\<lambda>a b. snd b - snd a) scored"
  have r: "searchSimilarChunks similarity st q limit = map fst (take limit ranked)"
    by (simp add: searchSimilarChunks_def Let_def found_def scored_def ranked_def)
  have pairs: "\<forall>p\<in>set ranked. snd p = similarity q (the (embedding (fst p))) \<and> fst p \<in> set found"
    by (auto simp: ranked_def set_js_sort scored_def)
  have srt: "sorted_wrt (\<lambda>a b. snd b \<le> snd a) ranked"
    unfolding ranked_def by (rule sorted_js_sort)
  have sub: "set (take limit ranked) \<subseteq> set ranked" by (rule set_take_subset)
  have "sorted_wrt (\<lambda>a b. snd b \<le> snd a) (take limit ranked)"
    using srt by (rule sorted_wrt_take)
  then have "sorted_wrt (\<lambda>a b. similarity q (the (embedding b)) \<le> similarity q (the (embedding a)))
      (map fst (take limit ranked))"
    using pairs sub by (intro sorted_wrt_map_fst) auto
  moreover have "\<forall>c\<in>set (map fst (take limit ranked)). c \<in> set (documentChunks st) \<and> embedding c \<noteq> None"
    using pairs sub by (auto simp: found_def)
  moreover have "length (map fst (take limit ranked)) \<le> limit" by simp
  ultimately show ?thesis unfolding r by blast
qed

theorem searchSimilarChunks_ranked_witness:
  "searchSimilarChunks calculateCosineSimilarity example_state [1, 0] 2 = [chunk_right, chunk_up] \<and>
   length [chunk_right, chunk_up] \<le> 2 \<and>
   embedding chunk_right \<noteq> None \<and> embedding chunk_up \<noteq> None \<and>
   calculateCosineSimilarity [1, 0] (the (embedding chunk_up))
     \<le> calculateCosineSimilarity [1, 0] (the (embedding chunk_right))"
proof -
  have run: "searchSimilarChunks calculateCosineSimilarity example_state [1, 0] 2 =
      [chunk_right, chunk_up]"
    by (simp add: searchSimilarChunks_def js_sort_def calculateCosineSimilarity_def magnitude_def
        dot_def example_defs)
  from searchSimilarChunks_ranked[of calculateCosineSimilarity example_state "[1, 0]" 2]
  show ?thesis unfolding run by simp
qed

text \<open>
  Claim C3, as stated (the end snaps to the nearest paragraph break within 100 of the
  proposed end, if one exists), fails in two ways. With paragraph breaks at the indices
  10 and 99 and a proposed end of 100, the end becomes 10, although the break at 99 is
  nearer. With a single paragraph break at index 200, at distance 100 from the proposed
  end of 100, the end is not snapped at all.
\<close>

theorem nearest_break_counterexample:
  "100 < int (length two_breaks_text) \<and>
   chunkEnd two_breaks_text 0 100 = 10 \<and>
   nearest_in_window two_breaks_text paragraph_break 100 100 = Some 99 \<and>
   100 < int (length edge_break_text) \<and>
   chunkEnd edge_break_text 0 100 = 100 \<and>
   nearest_in_window edge_break_text paragraph_break 100 100 = Some 200"
  by code_simp

text \<open>
  Claim C3, amended: whenever the proposed end \<open>startPos + chunkSize\<close> lies strictly
  before the end of the text, the end becomes the first paragraph break at an index in
  \<open>[end - 100, end + 100)\<close> if there is one, otherwise one past the first sentence
  break at an index in \<open>[end - 100, end + 50)\<close> if there is one, otherwise it stays; it
  is below the length of the text, so the clamp leaves it as it is; the loop appends
  \<open>substring text startPos end\<close>, which is the slice \<open>[startPos, end)\<close> when
  \<open>0 \<le> startPos \<le> end\<close>, and goes on from \<open>end - overlap\<close>.
\<close>

theorem chunk_end_first_in_window:
  assumes "startPos < int (length text)" and "startPos + chunkSize < int (length text)"
  shows "chunkEnd text startPos chunkSize = window_end text (startPos + chunkSize) \<and>
         window_end text (startPos + chunkSize) < int (length text) \<and>
         chunk_loop text chunkSize overlap startPos chunks =
           (let endPos = window_end text (startPos + chunkSize);
                chunks' = chunks @ [substring text startPos endPos]
            in if int (length text) \<le> endPos - overlap then Some chunks'
               else chunk_loop text chunkSize overlap (endPos - overlap) chunks') \<and>
         (0 \<le> startPos \<and> startPos \<le> window_end text (startPos + chunkSize) \<longrightarrow>
            substring text startPos (window_end text (startPos + chunkSize)) =
            slice text (nat startPos) (nat (window_end text (startPos + chunkSize))))"
proof -
  let ?E = "window_end text (startPos + chunkSize)"
  have E: "chunkEnd text startPos chunkSize = ?E" "?E < int (length text)"
    using chunkEnd_snapped[OF assms(2)] snapEnd_window[OF assms(2)] by simp_all
  have loop: "chunk_loop text chunkSize overlap startPos chunks =
      (if int (length text) \<le> ?E - overlap then Some (chunks @ [substring text startPos ?E])
       else chunk_loop text chunkSize overlap (?E - overlap) (chunks @ [substring text startPos ?E]))"
    using assms(1) E by (subst chunk_loop.simps) (simp add: Let_def)
  have sl: "0 \<le> startPos \<and> startPos \<le> ?E \<longrightarrow>
      substring text startPos ?E = slice text (nat startPos) (nat ?E)"
    using substring_slice[of startPos ?E "text"] E(2) by simp
  show ?thesis using E loop sl by (simp add: Let_def)
qed

theorem chunk_end_first_in_window_witness:
  "(0::int) < int (length sentence_text) \<and> (0::int) + 150 < int (length sentence_text) \<and>
   chunkEnd sentence_text 0 150 = window_end sentence_text (0 + 150) \<and>
   window_end sentence_text (0 + 150) = 121 \<and>
   substring sentence_text 0 121 = slice sentence_text 0 121"
proof -
  have h1: "(0::int) < int (length sentence_text)" by code_simp
  have h2: "(0::int) + 150 < int (length sentence_text)" by code_simp
  have v: "window_end sentence_text (0 + 150) = 121" by code_simp
  from chunk_end_first_in_window[OF h1 h2, of 20 "[]"] show ?thesis
    using h1 h2 v by simp
qed

text \<open>
  Claim C4 (no loss, overlap): for a non-negative overlap and every input on which the
  chunker returns, each chunk is the slice of the text between its start and end
  cursors, each next start cursor is the previous end cursor minus the overlap,
  consecutive chunks share a region of \<open>overlap\<close> characters, and the chunks without
  their overlapping ends, concatenated, are the text.
\<close>

theorem chunks_cover_text:
  assumes "0 \<le> overlap" and "splitTextIntoChunks text chunkSize overlap = Some chunks"
  shows "covers text overlap 0 chunks \<and> share_overlap (nat overlap) chunks \<and>
         reassemble (nat overlap) chunks = text"
proof -
  from chunk_loop_covers[OF assms(2)[unfolded splitTextIntoChunks_def] assms(1)]
  have c: "covers text overlap 0 chunks" by simp
  from covers_share_overlap[OF assms(1) c] covers_reassemble[OF assms(1) c] c
  show ?thesis by simp
qed

theorem chunks_cover_text_witness:
  "(0::int) \<le> 20 \<and> splitTextIntoChunks sentence_text 150 20 = Some sentence_chunks \<and>
   covers sentence_text 20 0 sentence_chunks \<and> share_overlap 20 sentence_chunks \<and>
   reassemble 20 sentence_chunks = sentence_text"
proof -
  have h: "splitTextIntoChunks sentence_text 150 20 = Some sentence_chunks" by code_simp
  from chunks_cover_text[OF _ h] h show ?thesis by simp
qed

text \<open>
  Claim C5, as stated (every text shorter than the chunk size gives exactly one chunk),
  fails for the empty text: the loop is not entered and no chunk is produced.
\<close>

theorem empty_text_no_chunk:
  "int (length ('''' :: string)) < 1000 \<and> splitTextIntoChunks '''' 1000 200 = Some [] \<and>
   splitTextIntoChunks '''' 1000 200 \<noteq> Some ['''']"
  by code_simp

text \<open>
  Claim C5, amended: for every text shorter than the chunk size the chunker returns; the
  result is the single chunk equal to the text when the text is not empty, and no chunk
  when it is empty.
\<close>

theorem short_text_single_chunk:
  assumes "int (length text) < chunkSize"
  shows "splitTextIntoChunks text chunkSize overlap = Some (if text = [] then [] else [text])"
proof (cases "text = []")
  case True
  then show ?thesis unfolding splitTextIntoChunks_def by (subst chunk_loop.simps) simp
next
  case False
  then have s: "(0::int) < int (length text)" by simp
  have E: "chunkEnd text 0 chunkSize = int (length text)"
    using chunkEnd_at_length[of 0 chunkSize "text"] assms by simp
  have "substring text 0 (int (length text)) = text"
    by (simp add: substring_def Let_def)
  with chunk_loop_unfold_exit[OF s, of chunkSize overlap "[]"] E False
  show ?thesis unfolding splitTextIntoChunks_def by simp
qed

theorem short_text_single_chunk_witness:
  "int (length ''hello'') < 1000 \<and> splitTextIntoChunks ''hello'' 1000 200 = Some [''hello'']"
  using short_text_single_chunk[of "''hello''" 1000 200] by simp

text \<open>
  Claim C6 (failure of a chat turn): the user message is saved first; when the embedding
  of the query fails, or the generator fails on the prompt built from the history that
  already holds the user message, the turn ends with status 500 and the stored messages
  are the earlier ones followed by the user message: no assistant message is added, and
  documents and chunks are untouched.
\<close>

theorem chat_failure_keeps_user_message:
  assumes "body \<noteq> []"
    and "st1 = snd (createMessage now1 \<lparr>msg_role = User, msg_content = body\<rparr> st)"
    and "(\<exists>e. generateEmbedding embeddingsApi body = Inl e) \<or>
         (\<exists>q e. generateEmbedding embeddingsApi body = Inr q \<and>
            generateChatResponse completionsApi
              (map (\<lambda>msg. \<lparr>msg_role = msg_role msg, msg_content = msg_content msg\<rparr>) (getMessages st1))
              (searchSimilarChunks similarity st1 q 5) = Inl e)"
  shows "chat_route embeddingsApi completionsApi similarity now1 now2 body st =
           (Reply500 ''Failed to process chat message'', st1) \<and>
         messages st1 = messages st @ [\<lparr>msg_role = User, msg_content = body, createdAt = now1\<rparr>] \<and>
         filter (\<lambda>m. msg_role m = Assistant) (messages st1) =
           filter (\<lambda>m. msg_role m = Assistant) (messages st) \<and>
         documents st1 = documents st \<and> documentChunks st1 = documentChunks st"
proof -
  have m: "messages st1 = messages st @ [\<lparr>msg_role = User, msg_content = body, createdAt = now1\<rparr>]"
    "documents st1 = documents st" "documentChunks st1 = documentChunks st"
    by (simp_all add: assms(2) createMessage_def Let_def)
  have "chat_route embeddingsApi completionsApi similarity now1 now2 body st =
           (Reply500 ''Failed to process chat message'', st1)"
    using assms(1,3) unfolding chat_route_def Let_def assms(2)[symmetric]
    by (auto split: sum.splits)
  with m show ?thesis by simp
qed

theorem chat_failure_keeps_user_message_witness:
  "chat_route embeddings_down completions_down calculateCosineSimilarity 5 6 ''Price?'' example_state =
     (Reply500 ''Failed to process chat message'',
      example_state\<lparr>messages := messages example_state @
        [\<lparr>msg_role = User, msg_content = ''Price?'', createdAt = 5\<rparr>]\<rparr>) \<and>
   chat_route embeddings_up completions_down calculateCosineSimilarity 5 6 ''Price?'' example_state =
     (Reply500 ''Failed to process chat message'',
      example_state\<lparr>messages := messages example_state @
        [\<lparr>msg_role = User, msg_content = ''Price?'', createdAt = 5\<rparr>]\<rparr>)"
proof -
  let ?st1 = "snd (createMessage 5 \<lparr>msg_role = User, msg_content = ''Price?''\<rparr> example_state)"
  have s: "?st1 = example_state\<lparr>messages := messages example_state @
        [\<lparr>msg_role = User, msg_content = ''Price?'', createdAt = 5\<rparr>]\<rparr>"
    by (simp add: createMessage_def Let_def)
  have a: "chat_route embeddings_down completions_down calculateCosineSimilarity 5 6 ''Price?''
      example_state = (Reply500 ''Failed to process chat message'', ?st1)"
    using chat_failure_keeps_user_message[of "''Price?''" ?st1 5 example_state embeddings_down
        completions_down calculateCosineSimilarity 6]
    by (simp add: generateEmbedding_def embeddings_down_def)
  have b: "chat_route embeddings_up completions_down calculateCosineSimilarity 5 6 ''Price?''
      example_state = (Reply500 ''Failed to process chat message'', ?st1)"
    using chat_failure_keeps_user_message[of "''Price?''" ?st1 5 example_state embeddings_up
        completions_down calculateCosineSimilarity 6]
    by (simp add: generateEmbedding_def generateChatResponse_def embeddings_up_def
        completions_down_def)
  from a b show ?thesis unfolding s by simp
qed

text \<open>
  Claim C7 (cascading delete), for every store and every identifier: when a document
  with the identifier is present, the call returns true, removes one document with that
  identifier, and leaves no chunk of that document while keeping every other chunk and
  every message; when no document has the identifier, whatever the store holds, the
  call returns false and leaves the state as it was.
\<close>

theorem deleteDocument_cascade:
  "(ident \<in> doc_id ` set (documents st) \<longrightarrow>
      fst (deleteDocument ident st) \<and>
      filter (\<lambda>c. documentId c = ident) (documentChunks (snd (deleteDocument ident st))) = [] \<and>
      filter (\<lambda>c. documentId c \<noteq> ident) (documentChunks (snd (deleteDocument ident st))) =
        filter (\<lambda>c. documentId c \<noteq> ident) (documentChunks st) \<and>
      length (documents (snd (deleteDocument ident st))) < length (documents st) \<and>
      (\<exists>d. d \<in> set (documents st) \<and> doc_id d = ident \<and>
         documents (snd (deleteDocument ident st)) = remove1 d (documents st)) \<and>
      messages (snd (deleteDocument ident st)) = messages st) \<and>
   (ident \<notin> doc_id ` set (documents st) \<longrightarrow>
      \<not> fst (deleteDocument ident st) \<and> snd (deleteDocument ident st) = st)"
proof (cases "find (\<lambda>d. doc_id d = ident) (documents st)")
  case None
  then have "ident \<notin> doc_id ` set (documents st)" by (auto simp: find_None_iff)
  with None show ?thesis by (simp add: deleteDocument_def)
next
  case (Some d)
  then have din: "d \<in> set (documents st)" and did: "doc_id d = ident"
    by (auto simp: find_Some_iff)
  then have pres: "ident \<in> doc_id ` set (documents st)" by auto
  have len: "length (remove1 d (documents st)) < length (documents st)"
    using din by (simp add: length_remove1) (cases "documents st", auto)
  have ex: "\<exists>d'. d' \<in> set (documents st) \<and> doc_id d' = ident \<and>
      remove1 d (documents st) = remove1 d' (documents st)"
    using din did by blast
  show ?thesis using Some pres len ex by (simp add: deleteDocument_def)
qed

theorem deleteDocument_cascade_witness:
  "1 \<in> doc_id ` set (documents example_state) \<and> 7 \<notin> doc_id ` set (documents example_state) \<and>
   1 \<notin> doc_id ` set (documents orphan_state) \<and>
   fst (deleteDocument 1 example_state) \<and>
   documentChunks (snd (deleteDocument 1 example_state)) = [chunk_right, chunk_left] \<and>
   filter (\<lambda>c. documentId c = 1) (documentChunks (snd (deleteDocument 1 example_state))) = [] \<and>
   \<not> fst (deleteDocument 7 example_state) \<and>
   snd (deleteDocument 7 example_state) = example_state \<and>
   \<not> fst (deleteDocument 1 orphan_state) \<and>
   snd (deleteDocument 1 orphan_state) = orphan_state \<and>
   documentChunks (snd (deleteDocument 1 orphan_state)) = [chunk_up, chunk_right]"
proof -
  have h1: "1 \<in> doc_id ` set (documents example_state)" by (simp add: example_defs)
  have h2: "7 \<notin> doc_id ` set (documents example_state)" by (simp add: example_defs)
  have h3: "1 \<notin> doc_id ` set (documents orphan_state)" by (simp add: orphan_state_def)
  have v: "documentChunks (snd (deleteDocument 1 example_state)) = [chunk_right, chunk_left]"
    by (simp add: deleteDocument_def example_defs)
  have w: "documentChunks orphan_state = [chunk_up, chunk_right]" by (simp add: orphan_state_def)
  from deleteDocument_cascade[of 1 example_state] deleteDocument_cascade[of 7 example_state]
    deleteDocument_cascade[of 1 orphan_state] h1 h2 h3 v w
  show ?thesis by simp
qed

text \<open>
  Claim C8 (prompt assembly). For every completion endpoint, \<^verbatim>\<open>generateChatResponse\<close>
  calls it with exactly the system message followed by the messages it was given, and
  returns its answer or the generation error. The content of the system message is the
  instruction for an empty library when no chunk is given, and otherwise the strict
  instruction followed by one numbered excerpt per chunk, so that the content of every
  chunk occurs in it. In the chat route, once the query is embedded, the endpoint is
  called with the system message for the chunks retrieved after the user message was
  saved, followed by the stored history including that message, and the outcome of the
  turn is determined by its answer. The stored history is the whole collection of
  messages in ascending order of creation, and a store without an embedded chunk
  retrieves no chunk.
\<close>

theorem prompt_assembly:
  "generateChatResponse completionsApi msgs cs =
     (case completionsApi (\<lparr>msg_role = System, msg_content = system_text cs\<rparr> # msgs) of
        Inl e \<Rightarrow> Inl (Error ''Failed to generate response'')
      | Inr m \<Rightarrow> Inr m) \<and>
   (\<forall>c\<in>set cs. sublist (content c) (system_text cs)) \<and>
   (body \<noteq> [] \<and> generateEmbedding embeddingsApi body = Inr q \<longrightarrow>
      chat_route embeddingsApi completionsApi similarity now1 now2 body st =
        (let st1 = st\<lparr>messages := messages st @
                      [\<lparr>msg_role = User, msg_content = body, createdAt = now1\<rparr>]\<rparr>;
             retrieved = searchSimilarChunks similarity st1 q 5;
             history = map (\<lambda>msg. \<lparr>msg_role = msg_role msg, msg_content = msg_content msg\<rparr>)
                         (getMessages st1)
         in case completionsApi
                   (\<lparr>msg_role = System, msg_content = system_text retrieved\<rparr> # history) of
              Inl e \<Rightarrow> (Reply500 ''Failed to process chat message'', st1)
            | Inr m \<Rightarrow>
                (Reply200 \<lparr>msg_role = Assistant, msg_content = msg_content m, createdAt = now2\<rparr>
                   (length retrieved),
                 st1\<lparr>messages := messages st1 @
                      [\<lparr>msg_role = Assistant, msg_content = msg_content m, createdAt = now2\<rparr>]\<rparr>))) \<and>
   (\<forall>s. sorted (map createdAt (getMessages s)) \<and> mset (getMessages s) = mset (messages s)) \<and>
   (\<forall>s. (\<forall>c\<in>set (documentChunks s). embedding c = None) \<longrightarrow>
        searchSimilarChunks similarity s q 5 = [])"
proof -
  have g: "generateChatResponse completionsApi msgs cs =
     (case completionsApi (\<lparr>msg_role = System, msg_content = system_text cs\<rparr> # msgs) of
        Inl e \<Rightarrow> Inl (Error ''Failed to generate response'')
      | Inr m \<Rightarrow> Inr m)" for completionsApi :: "chat_message list \<Rightarrow> 'x + chat_message" and msgs cs
    by (simp add: generateChatResponse_def formattedMessages_def contextTextOf_system_text)
  have sub: "\<forall>c\<in>set cs. sublist (content c) (system_text cs)"
    using content_in_context by (simp add: contextTextOf_system_text)
  have route: "body \<noteq> [] \<and> generateEmbedding embeddingsApi body = Inr q \<longrightarrow>
      chat_route embeddingsApi completionsApi similarity now1 now2 body st =
        (let st1 = st\<lparr>messages := messages st @
                      [\<lparr>msg_role = User, msg_content = body, createdAt = now1\<rparr>]\<rparr>;
             retrieved = searchSimilarChunks similarity st1 q 5;
             history = map (\<lambda>msg. \<lparr>msg_role = msg_role msg, msg_content = msg_content msg\<rparr>)
                         (getMessages st1)
         in case completionsApi
                   (\<lparr>msg_role = System, msg_content = system_text retrieved\<rparr> # history) of
              Inl e \<Rightarrow> (Reply500 ''Failed to process chat message'', st1)
            | Inr m \<Rightarrow>
                (Reply200 \<lparr>msg_role = Assistant, msg_content = msg_content m, createdAt = now2\<rparr>
                   (length retrieved),
                 st1\<lparr>messages := messages st1 @
                      [\<lparr>msg_role = Assistant, msg_content = msg_content m, createdAt = now2\<rparr>]\<rparr>))"
    by (auto simp: chat_route_def Let_def createMessage_def g split: sum.splits)
  have h: "\<forall>s. sorted (map createdAt (getMessages s)) \<and> mset (getMessages s) = mset (messages s)"
    by (simp add: getMessages_def)
  have z: "\<forall>s. (\<forall>c\<in>set (documentChunks s). embedding c = None) \<longrightarrow>
        searchSimilarChunks similarity s q 5 = []"
    using searchSimilarChunks_none_embedded by blast
  show ?thesis using g[of completionsApi msgs cs] sub route h z by blast
qed

theorem prompt_assembly_witness:
  "''Price?'' \<noteq> [] \<and> generateEmbedding embeddings_up ''Price?'' = Inr [1, 0] \<and>
   chat_route embeddings_up echo_prompt calculateCosineSimilarity 5 6 ''Price?'' empty_library_state =
     (Reply200
        \<lparr>msg_role = Assistant, msg_content = no_documents_instruction @ ''|Hello|Hi|Price?|'',
         createdAt = 6\<rparr> 0,
      empty_library_state\<lparr>messages := messages empty_library_state @
        [\<lparr>msg_role = User, msg_content = ''Price?'', createdAt = 5\<rparr>,
         \<lparr>msg_role = Assistant, msg_content = no_documents_instruction @ ''|Hello|Hi|Price?|'',
          createdAt = 6\<rparr>]\<rparr>) \<and>
   generateChatResponse echo_prompt example_history [chunk_right, chunk_up] =
     Inr \<lparr>msg_role = Assistant,
          msg_content = strict_instruction @
            ''Document excerpt 1:\<newline>Shipping is free.\<newline>\<newline>'' @
            ''Document excerpt 2:\<newline>Refunds take five days.\<newline>\<newline>'' @ ''|Hello|Hi|''\<rparr> \<and>
   sublist (content chunk_right) (system_text [chunk_right, chunk_up]) \<and>
   sublist (content chunk_up) (system_text [chunk_right, chunk_up]) \<and>
   searchSimilarChunks calculateCosineSimilarity empty_library_state [1, 0] 5 = []"
proof -
  have n: "show_nat (Suc 0) = ''1''" "show_nat (Suc (Suc 0)) = ''2''" by code_simp+
  have u: "[0..<2] = [0, 1]" by (simp add: upt_rec)
  have t: "system_text [chunk_right, chunk_up] = strict_instruction @
            ''Document excerpt 1:\<newline>Shipping is free.\<newline>\<newline>'' @
            ''Document excerpt 2:\<newline>Refunds take five days.\<newline>\<newline>''"
    by (simp add: system_text_def u n chunk_right_def chunk_up_def)
  have e: "generateEmbedding embeddings_up ''Price?'' = Inr [1, 0]"
    by (simp add: generateEmbedding_def embeddings_up_def)
  have c: "documentChunks empty_library_state = []" by (simp add: empty_library_state_def)
  have z: "searchSimilarChunks calculateCosineSimilarity empty_library_state [1, 0] 5 = []"
    using prompt_assembly[of echo_prompt "[]" "[]" "''Price?''" embeddings_up "[1, 0]"
        calculateCosineSimilarity 5 6 empty_library_state] c
    by simp
  have z1: "searchSimilarChunks calculateCosineSimilarity
      (empty_library_state\<lparr>messages := messages empty_library_state @
        [\<lparr>msg_role = User, msg_content = ''Price?'', createdAt = 5\<rparr>]\<rparr>) [1, 0] 5 = []"
    using prompt_assembly[of echo_prompt "[]" "[]" "''Price?''" embeddings_up "[1, 0]"
        calculateCosineSimilarity 5 6 empty_library_state] c
    by simp
  have r: "chat_route embeddings_up echo_prompt calculateCosineSimilarity 5 6 ''Price?''
      empty_library_state =
     (Reply200
        \<lparr>msg_role = Assistant, msg_content = no_documents_instruction @ ''|Hello|Hi|Price?|'',
         createdAt = 6\<rparr> 0,
      empty_library_state\<lparr>messages := messages empty_library_state @
        [\<lparr>msg_role = User, msg_content = ''Price?'', createdAt = 5\<rparr>,
         \<lparr>msg_role = Assistant, msg_content = no_documents_instruction @ ''|Hello|Hi|Price?|'',
          createdAt = 6\<rparr>]\<rparr>)"
    using prompt_assembly[of echo_prompt "[]" "[]" "''Price?''" embeddings_up "[1, 0]"
        calculateCosineSimilarity 5 6 empty_library_state] e z1
    by (simp add: Let_def echo_prompt_def getMessages_def system_text_def empty_library_state_def)
  have g: "generateChatResponse echo_prompt example_history [chunk_right, chunk_up] =
     Inr \<lparr>msg_role = Assistant,
          msg_content = strict_instruction @
            ''Document excerpt 1:\<newline>Shipping is free.\<newline>\<newline>'' @
            ''Document excerpt 2:\<newline>Refunds take five days.\<newline>\<newline>'' @ ''|Hello|Hi|''\<rparr>"
    using prompt_assembly[of echo_prompt example_history "[chunk_right, chunk_up]" "''Price?''"
        embeddings_up "[1, 0]" calculateCosineSimilarity 5 6 empty_library_state]
    by (simp add: t echo_prompt_def example_history_def)
  have s: "sublist (content chunk_right) (system_text [chunk_right, chunk_up]) \<and>
      sublist (content chunk_up) (system_text [chunk_right, chunk_up])"
    using prompt_assembly[of echo_prompt example_history "[chunk_right, chunk_up]" "''Price?''"
        embeddings_up "[1, 0]" calculateCosineSimilarity 5 6 empty_library_state]
    by simp
  from e r g s z show ?thesis by simp
qed

text \<open>
  Claim C9 (failed extraction): when the text extraction fails, which it does with
  \<^verbatim>\<open>Unsupported file type\<close> for every extension other than pdf, docx, txt and md, the call
  returns that error, the route answers with status 500, no document and no chunk is
  added, and the temporary file is gone.
\<close>

theorem extraction_failure_aborts_upload:
  assumes "path file \<noteq> []"
    and "extractText pdfParse extractRawText (toLowerCase (extname (originalname file))) file st = Inl err"
  shows "processFile pdfParse extractRawText file (originalname file) st = Some (Inl err, cleanup file st) \<and>
         upload_route pdfParse extractRawText (Some file) st =
           Some (Upload500 ''Failed to upload document'', cleanup file st) \<and>
         documents (cleanup file st) = documents st \<and>
         documentChunks (cleanup file st) = documentChunks st \<and>
         files (cleanup file st) (path file) = None \<and>
         (toLowerCase (extname (originalname file)) \<notin> {''.pdf'', ''.docx'', ''.txt'', ''.md''} \<longrightarrow>
            err = Error ''Unsupported file type'')"
proof -
  have p: "processFile pdfParse extractRawText file (originalname file) st = Some (Inl err, cleanup file st)"
    using assms(2) by (simp add: processFile_def Let_def)
  then have u: "upload_route pdfParse extractRawText (Some file) st =
           Some (Upload500 ''Failed to upload document'', cleanup file st)"
    by (simp add: upload_route_def)
  have e: "toLowerCase (extname (originalname file)) \<notin> {''.pdf'', ''.docx'', ''.txt'', ''.md''} \<longrightarrow>
            err = Error ''Unsupported file type''"
    using assms(2) by (auto simp: extractText_def)
  show ?thesis using p u e cleanup_keeps_store(1,2) cleanup_removes[OF assms(1)] by simp
qed

theorem extraction_failure_aborts_upload_witness:
  "path example_upload \<noteq> [] \<and>
   toLowerCase (extname (originalname example_upload)) = ''.exe'' \<and>
   processFile parser_stub parser_stub example_upload ''setup.exe'' example_state =
     Some (Inl (Error ''Unsupported file type''), cleanup example_upload example_state) \<and>
   upload_route parser_stub parser_stub (Some example_upload) example_state =
     Some (Upload500 ''Failed to upload document'', cleanup example_upload example_state) \<and>
   documents (cleanup example_upload example_state) = documents example_state \<and>
   documentChunks (cleanup example_upload example_state) = documentChunks example_state \<and>
   files example_state (path example_upload) = Some ''MZ'' \<and>
   files (cleanup example_upload example_state) (path example_upload) = None"
proof -
  have x: "toLowerCase (extname ''setup.exe'') = ''.exe''" by code_simp
  have n: "originalname example_upload = ''setup.exe''" "path example_upload \<noteq> []"
    "files example_state (path example_upload) = Some ''MZ''"
    by (simp_all add: example_defs)
  have e: "extractText parser_stub parser_stub
      (toLowerCase (extname (originalname example_upload))) example_upload example_state =
      Inl (Error ''Unsupported file type'')"
    unfolding n x by (simp add: extractText_def)
  from extraction_failure_aborts_upload[OF n(2) e] x n show ?thesis by simp
qed

text \<open>
  Claim C10 (upper bound on the chunk length): for a positive chunk size every chunk of
  a returned result, and every chunk appended by an iteration from any cursor, has at
  most \<open>chunkSize + 99\<close> characters; the end position is at most 99 beyond
  \<open>startPos + chunkSize\<close>, and at most 50 beyond it when no paragraph break is taken.
\<close>

theorem chunk_length_at_most:
  assumes "0 < chunkSize"
  shows "(splitTextIntoChunks text chunkSize overlap = Some chunks \<longrightarrow>
            (\<forall>c\<in>set chunks. int (length c) \<le> chunkSize + 99)) \<and>
         (startPos < int (length text) \<longrightarrow>
            int (length (substring text startPos (chunkEnd text startPos chunkSize)))
              \<le> chunkSize + 99) \<and>
         chunkEnd text startPos chunkSize \<le> startPos + chunkSize + 99 \<and>
         (first_in_window text paragraph_break
              (startPos + chunkSize - 100) (startPos + chunkSize + 100) = None \<longrightarrow>
            chunkEnd text startPos chunkSize \<le> startPos + chunkSize + 50)"
proof -
  have a: "splitTextIntoChunks text chunkSize overlap = Some chunks \<longrightarrow>
      (\<forall>c\<in>set chunks. int (length c) \<le> chunkSize + 99)"
    using chunk_loop_bounded[OF _ assms, of "text" overlap 0 "[]" chunks]
    by (simp add: splitTextIntoChunks_def)
  have b: "startPos < int (length text) \<longrightarrow>
      int (length (substring text startPos (chunkEnd text startPos chunkSize))) \<le> chunkSize + 99"
    using chunk_length_bound[OF _ assms] by simp
  show ?thesis
  proof (cases "startPos + chunkSize < int (length text)")
    case True
    from chunkEnd_snapped(1)[OF True] snapEnd_bounds(2)[OF True] snapEnd_window[OF True]
      window_end_sentence_bound[of "text" "startPos + chunkSize"] a b
    show ?thesis by simp
  next
    case False
    from chunkEnd_at_length[OF False] False a b show ?thesis by simp
  qed
qed

theorem chunk_length_at_most_witness:
  "(0::int) < 100 \<and> splitTextIntoChunks late_break_text 100 20 = Some late_break_chunks \<and>
   int (length (late_break_chunks ! 0)) = 100 + 99 \<and>
   int (length (late_break_chunks ! 1)) \<le> 100 + 99 \<and>
   (0::int) < int (length late_break_text) \<and>
   int (length (substring late_break_text 0 (chunkEnd late_break_text 0 100))) \<le> 100 + 99 \<and>
   chunkEnd late_break_text 0 100 = 0 + 100 + 99 \<and>
   first_in_window sentence_text paragraph_break (0 + 150 - 100) (0 + 150 + 100) = None \<and>
   chunkEnd sentence_text 0 150 \<le> 0 + 150 + 50"
proof -
  have h: "splitTextIntoChunks late_break_text 100 20 = Some late_break_chunks" by code_simp
  have l: "(0::int) < int (length late_break_text)" by code_simp
  have e: "chunkEnd late_break_text 0 100 = 0 + 100 + 99" by code_simp
  have p: "first_in_window sentence_text paragraph_break (0 + 150 - 100) (0 + 150 + 100) = None"
    by code_simp
  have n: "int (length (late_break_chunks ! 0)) = 100 + 99"
    by (simp add: late_break_chunks_def)
  from chunk_length_at_most[of 100 late_break_text 20 late_break_chunks 0]
    chunk_length_at_most[of 150 sentence_text 20 sentence_chunks 0] h l e p n
  show ?thesis by (simp add: late_break_chunks_def)
qed

end
